theory Spec2Isabelle
  imports Main "HOL-Library.Word" "HOL-Library.Sublist"
begin

section \<open>Repository locks of restic: \<^verbatim>\<open>internal/restic/lock.go\<close>\<close>

text \<open>
  A shallow embedding of the lock protocol of \<^verbatim>\<open>lock.go\<close>. One client process is
  modelled; the store, the clock, the other clients and the operating system are explicit
  values. Every function of the source that touches the store takes the world and
  returns the new world. Mutexes guard fields inside one process and have no counterpart
  in this single-threaded model.
\<close>

subsection \<open>Data\<close>

type_synonym ID = nat
  \<comment> \<open>a storage ID; the source's 32-byte hash, compared only for equality\<close>

type_synonym instant = int
  \<comment> \<open>\<^verbatim>\<open>time.Time\<close>, as nanoseconds on one clock\<close>

type_synonym duration = int
  \<comment> \<open>\<^verbatim>\<open>time.Duration\<close>, nanoseconds\<close>

definition millisecond :: duration where "millisecond = 1000000"
definition second :: duration where "second = 1000000000"
definition minute :: duration where "minute = 60000000000"

text \<open>
  \<^verbatim>\<open>type Lock struct\<close>. The mutex is omitted; the \<^verbatim>\<open>repo\<close> handle is passed to the
  functions as an argument of its own. \<^verbatim>\<open>lockID *ID\<close> is an option: \<open>None\<close> is the nil
  pointer.
\<close>

record Lock =
  Time :: instant
  Exclusive :: bool
  Hostname :: string
  Username :: string
  PID :: int
  UID :: "32 word"
  GID :: "32 word"
  lockID :: "ID option"

text \<open>
  Errors as values, in two layers. A \<open>ferror\<close> is an error made outside \<^verbatim>\<open>lock.go\<close>, by
  the store, the context or the operating system: \<open>ErrInvalidData\<close> is the sentinel of
  the loader, \<open>Canceled\<close> the value of \<^verbatim>\<open>ctx.Err()\<close>, \<open>Wrapped\<close> an error that wraps
  another one (it has \<^verbatim>\<open>Unwrap\<close>), \<open>Failure\<close> any other error. The error structs
  \<^verbatim>\<open>alreadyLockedError\<close> and \<^verbatim>\<open>invalidLockError\<close> are unexported types of the package, so
  only \<^verbatim>\<open>lock.go\<close> makes them; with the sentinel \<open>ErrRemovedLock\<close> they are the second
  layer. \<open>NilDeref\<close> is the run-time panic of dereferencing a nil \<^verbatim>\<open>lockID\<close>.
\<close>

datatype ferror =
    ErrInvalidData
  | Canceled
  | Failure string
  | Wrapped string ferror

datatype error =
    Foreign ferror
  | AlreadyLockedError Lock
  | InvalidLockError error
  | ErrRemovedLock
  | NilDeref

text \<open>\<^verbatim>\<open>errors.Is(err, ErrInvalidData)\<close>: follows the chain of \<^verbatim>\<open>Unwrap\<close>.\<close>

fun unwrapsInvalidData :: "ferror \<Rightarrow> bool" where
  "unwrapsInvalidData ErrInvalidData = True"
| "unwrapsInvalidData (Wrapped msg e) = unwrapsInvalidData e"
| "unwrapsInvalidData _ = False"

fun isInvalidData :: "error \<Rightarrow> bool" where
  "isInvalidData (Foreign e) = unwrapsInvalidData e"
| "isInvalidData (InvalidLockError e) = isInvalidData e"
| "isInvalidData _ = False"

text \<open>
  The type assertion \<^verbatim>\<open>err.(*alreadyLockedError)\<close> of \<^verbatim>\<open>checkForOtherLocks\<close>: it looks
  at the error itself, not through wrappers.
\<close>

fun isAlreadyLockedError :: "error \<Rightarrow> bool" where
  "isAlreadyLockedError (AlreadyLockedError other) = True"
| "isAlreadyLockedError _ = False"

text \<open>\<^verbatim>\<open>IsAlreadyLocked\<close> and \<^verbatim>\<open>IsInvalidLock\<close>: \<^verbatim>\<open>errors.As\<close>, through the chain.\<close>

fun IsAlreadyLocked :: "error \<Rightarrow> bool" where
  "IsAlreadyLocked (AlreadyLockedError other) = True"
| "IsAlreadyLocked (InvalidLockError e) = IsAlreadyLocked e"
| "IsAlreadyLocked _ = False"

fun IsInvalidLock :: "error \<Rightarrow> bool" where
  "IsInvalidLock (InvalidLockError e) = True"
| "IsInvalidLock _ = False"

definition foreign :: "ferror option \<Rightarrow> error option" where
  "foreign f = map_option Foreign f"

subsection \<open>The tunables\<close>

text \<open>
  The package variables \<^verbatim>\<open>waitBeforeLockCheck\<close>, \<^verbatim>\<open>initialWaitBetweenLockRetries\<close> and
  \<^verbatim>\<open>StaleLockTimeout\<close>, and the constant \<^verbatim>\<open>UnlockCancelDelay\<close>.
\<close>

record tunables =
  waitBeforeLockCheck :: duration
  initialWaitBetweenLockRetries :: duration
  StaleLockTimeout :: duration

definition defaults :: tunables where
  "defaults = \<lparr> waitBeforeLockCheck = 200 * millisecond,
                initialWaitBetweenLockRetries = 5 * second,
                StaleLockTimeout = 30 * minute \<rparr>"

text \<open>\<^verbatim>\<open>TestSetLockTimeout\<close>: both waits are set to \<open>d\<close>.\<close>

definition TestSetLockTimeout :: "duration \<Rightarrow> tunables \<Rightarrow> tunables" where
  "TestSetLockTimeout d v = v\<lparr> waitBeforeLockCheck := d, initialWaitBetweenLockRetries := d \<rparr>"

definition UnlockCancelDelay :: duration where
  "UnlockCancelDelay = 1 * minute"

text \<open>
  A \<^verbatim>\<open>time.Duration\<close> is a signed 64-bit integer: \<^verbatim>\<open>delay *= 2\<close> wraps around.
\<close>

definition wrap64 :: "int \<Rightarrow> int" where
  "wrap64 x = (x + 2 ^ 63) mod 2 ^ 64 - 2 ^ 63"

subsection \<open>The world: store, clock, other clients\<close>

text \<open>
  A lock object of the store has a size and a body; the body is what decoding the object
  gives, a descriptor or the loader's error. An object of size 0 is an empty file.
\<close>

record obj =
  osize :: int
  body :: "ferror + Lock"

type_synonym store = "(ID \<times> obj) list"
  \<comment> \<open>the objects of kind \<^verbatim>\<open>LockFile\<close>, in the order in which listing delivers them\<close>

datatype action = PeerPut ID obj | PeerDel ID
  \<comment> \<open>what another client does to the store\<close>

datatype event =
    EvList | EvLoad ID | EvSave ID | EvRemove ID
  | EvSleep duration | EvDelay duration
  \<comment> \<open>the calls this client makes: four store calls, \<^verbatim>\<open>time.Sleep\<close>, \<^verbatim>\<open>cancelableDelay\<close>\<close>

text \<open>
  \<open>faults\<close> is the answer of the store to the coming calls, one entry per call in call
  order: \<open>Some e\<close> makes the call fail with \<open>e\<close>; an exhausted list means no more
  failures. \<open>peers\<close> are the timed actions of other clients that have not happened yet.
  \<open>trace\<close> records the calls made so far.
\<close>

record world =
  objs :: store
  clock :: instant
  faults :: "ferror option list"
  peers :: "(instant \<times> action) list"
  trace :: "event list"

text \<open>
  A \<^verbatim>\<open>context.Context\<close> is the instant at which it is cancelled, if ever. Its \<^verbatim>\<open>Done\<close>
  channel counts as closed once the clock has reached that instant.
\<close>

type_synonym ctx = "instant option"

definition ctxDone :: "ctx \<Rightarrow> instant \<Rightarrow> bool" where
  "ctxDone c t = (case c of None \<Rightarrow> False | Some d \<Rightarrow> d \<le> t)"

definition hasID :: "ID \<Rightarrow> store \<Rightarrow> bool" where
  "hasID i st = (i \<in> fst ` set st)"

definition putObj :: "ID \<Rightarrow> obj \<Rightarrow> store \<Rightarrow> store" where
  "putObj i ob st = (if hasID i st then map (\<lambda>(k, v). if k = i then (k, ob) else (k, v)) st
                     else st @ [(i, ob)])"

definition delObj :: "ID \<Rightarrow> store \<Rightarrow> store" where
  "delObj i st = filter (\<lambda>(k, v). k \<noteq> i) st"

fun applyAction :: "store \<Rightarrow> action \<Rightarrow> store" where
  "applyAction st (PeerPut i ob) = putObj i ob st"
| "applyAction st (PeerDel i) = delObj i st"

text \<open>
  Time passes only while this client sleeps; the store calls are instantaneous. When the
  clock moves to \<open>t\<close>, the actions of the other clients that are due by \<open>t\<close> are applied
  in their order.
\<close>

definition advanceTo :: "instant \<Rightarrow> world \<Rightarrow> world" where
  "advanceTo t w =
     (let due = filter (\<lambda>(at, a). at \<le> t) (peers w);
          later = filter (\<lambda>(at, a). \<not> at \<le> t) (peers w)
      in w\<lparr> objs := foldl applyAction (objs w) (map snd due),
            clock := max t (clock w),
            peers := later \<rparr>)"

text \<open>\<^verbatim>\<open>time.Sleep(d)\<close>: returns after \<open>d\<close>, at once when \<open>d \<le> 0\<close>. It takes no context.\<close>

definition timeSleep :: "duration \<Rightarrow> world \<Rightarrow> world" where
  "timeSleep d w = advanceTo (clock w + max d 0) (w\<lparr> trace := trace w @ [EvSleep d] \<rparr>)"

text \<open>
  \<^verbatim>\<open>cancelableDelay\<close>: a timer of \<open>delay\<close> and a \<^verbatim>\<open>select\<close> on the context and the timer.
  The context wins when it is cancelled by the time the timer would fire, and the call
  returns \<^verbatim>\<open>ctx.Err()\<close> at the instant of cancellation (at once when the context is
  cancelled already).
\<close>

definition cancelableDelay :: "ctx \<Rightarrow> duration \<Rightarrow> world \<Rightarrow> error option \<times> world" where
  "cancelableDelay c delay w =
     (let fire = clock w + max delay 0;
          w1 = w\<lparr> trace := trace w @ [EvDelay delay] \<rparr>
      in case c of
           None \<Rightarrow> (None, advanceTo fire w1)
         | Some d \<Rightarrow> if d \<le> fire then (Some (Foreign Canceled), advanceTo d w1)
                     else (None, advanceTo fire w1))"

text \<open>
  \<^verbatim>\<open>delayedCancelContext\<close>: a fresh context that is cancelled \<open>delay\<close> after the parent
  is seen cancelled by the goroutine started at the call.
\<close>

definition delayedCancelContext :: "ctx \<Rightarrow> duration \<Rightarrow> world \<Rightarrow> ctx" where
  "delayedCancelContext parent delay w =
     (case parent of None \<Rightarrow> None | Some d \<Rightarrow> Some (max d (clock w) + max delay 0))"

subsection \<open>The store adapter\<close>

text \<open>
  The handle \<^verbatim>\<open>repo Unpacked[FileType]\<close>. Its methods are not part of \<^verbatim>\<open>lock.go\<close>; what
  the source needs of the encoder is taken as two functions: the storage ID of a saved
  descriptor (the store is content-addressed) and the size of its encoding.
\<close>

record repo =
  idOf :: "Lock \<Rightarrow> ID"
  sizeOf :: "Lock \<Rightarrow> int"

text \<open>
  Every store call is recorded in the trace and takes the next entry of \<open>faults\<close>. A call
  made under a context that is cancelled already fails with \<open>Canceled\<close>.
\<close>

definition storeCall :: "ctx \<Rightarrow> event \<Rightarrow> world \<Rightarrow> ferror option \<times> world" where
  "storeCall c ev w =
     (let w1 = w\<lparr> trace := trace w @ [ev] \<rparr>;
          (f, w2) = (case faults w1 of [] \<Rightarrow> (None, w1)
                     | x # xs \<Rightarrow> (x, w1\<lparr> faults := xs \<rparr>))
      in (if ctxDone c (clock w) then Some Canceled else f, w2))"

text \<open>
  Modelled from the spec: the four methods of the store that \<^verbatim>\<open>lock.go\<close> calls
  (\<^verbatim>\<open>List\<close>, \<^verbatim>\<open>LoadJSONUnpacked\<close>, \<^verbatim>\<open>SaveJSONUnpacked\<close>, \<^verbatim>\<open>RemoveUnpacked\<close>) are not in the
  source tree. \<open>list\<close> enumerates ids with sizes (empty objects included); \<open>load\<close> decodes
  an object or fails; \<open>save\<close> puts a new object and returns its id; \<open>remove\<close> deletes, and
  absence is not an error. A failed call leaves the store as it was.
\<close>

definition repoList :: "ctx \<Rightarrow> world \<Rightarrow> (ferror + (ID \<times> int) list) \<times> world" where
  "repoList c w =
     (case storeCall c EvList w of
        (Some e, w1) \<Rightarrow> (Inl e, w1)
      | (None, w1) \<Rightarrow> (Inr (map (\<lambda>(i, ob). (i, osize ob)) (objs w1)), w1))"

definition LoadJSONUnpacked :: "ctx \<Rightarrow> ID \<Rightarrow> world \<Rightarrow> (ferror + Lock) \<times> world" where
  "LoadJSONUnpacked c i w =
     (case storeCall c (EvLoad i) w of
        (Some e, w1) \<Rightarrow> (Inl e, w1)
      | (None, w1) \<Rightarrow>
          (case map_of (objs w1) i of
             None \<Rightarrow> (Inl (Failure ''not found''), w1)
           | Some ob \<Rightarrow> (body ob, w1)))"

definition SaveJSONUnpacked :: "ctx \<Rightarrow> repo \<Rightarrow> Lock \<Rightarrow> world \<Rightarrow> (ferror + ID) \<times> world" where
  "SaveJSONUnpacked c r l w =
     (let d = l\<lparr> lockID := None \<rparr>; i = idOf r d
      in case storeCall c (EvSave i) w of
           (Some e, w1) \<Rightarrow> (Inl e, w1)
         | (None, w1) \<Rightarrow>
             (Inr i, w1\<lparr> objs := putObj i \<lparr> osize = sizeOf r d, body = Inr d \<rparr> (objs w1) \<rparr>))"

definition RemoveUnpacked :: "ctx \<Rightarrow> ID \<Rightarrow> world \<Rightarrow> ferror option \<times> world" where
  "RemoveUnpacked c i w =
     (case storeCall c (EvRemove i) w of
        (Some e, w1) \<Rightarrow> (Some e, w1)
      | (None, w1) \<Rightarrow> (None, w1\<lparr> objs := delObj i (objs w1) \<rparr>))"

subsection \<open>The operating system\<close>

text \<open>
  What \<^verbatim>\<open>os.Hostname\<close>, \<^verbatim>\<open>user.Current\<close> and \<^verbatim>\<open>os.Getpid\<close> return. \<^verbatim>\<open>uidGidInt\<close> and
  \<^verbatim>\<open>processExists\<close> are platform files outside the source tree and are taken as they
  come: \<open>uidGidInt\<close> returns a uid, a gid and an error; \<open>processExists\<close> says whether the
  process of a pid is alive.
\<close>

record osUser =
  uname :: string
  uidStr :: string
  gidStr :: string

record os =
  osHostname :: "ferror + string"
  userCurrent :: "ferror + osUser"
  osGetpid :: int
  uidGidInt :: "osUser \<Rightarrow> 32 word \<times> 32 word \<times> ferror option"
  processExists :: "int \<Rightarrow> bool"

subsection \<open>Building and publishing a descriptor\<close>

text \<open>\<^verbatim>\<open>fillUserInfo\<close>: the lock with its user fields, and the error it returns.\<close>

definition fillUserInfo :: "os \<Rightarrow> Lock \<Rightarrow> Lock \<times> error option" where
  "fillUserInfo sys l =
     (case userCurrent sys of
        Inl e \<Rightarrow> (l, None)
      | Inr usr \<Rightarrow>
          (case uidGidInt sys usr of
             (u, g, err) \<Rightarrow> (l\<lparr> Username := uname usr, UID := u, GID := g \<rparr>, foreign err)))"

definition createLock :: "ctx \<Rightarrow> repo \<Rightarrow> Lock \<Rightarrow> world \<Rightarrow> (error + ID) \<times> world" where
  "createLock c r l w =
     (case SaveJSONUnpacked c r l w of
        (Inl e, w1) \<Rightarrow> (Inl (Foreign e), w1)
      | (Inr i, w1) \<Rightarrow> (Inr i, w1))"

text \<open>
  \<^verbatim>\<open>Unlock\<close>. The receiver may be nil, so the lock is an option. The removal runs under
  the delayed context. The lock value itself is not changed.
\<close>

definition Unlock :: "ctx \<Rightarrow> Lock option \<Rightarrow> world \<Rightarrow> error option \<times> world" where
  "Unlock c lo w =
     (case lo of
        None \<Rightarrow> (None, w)
      | Some l \<Rightarrow>
          (case lockID l of
             None \<Rightarrow> (None, w)
           | Some i \<Rightarrow>
               (case RemoveUnpacked (delayedCancelContext c UnlockCancelDelay w) i w of
                  (err, w1) \<Rightarrow> (foreign err, w1))))"

text \<open>\<^verbatim>\<open>LoadLock\<close>.\<close>

definition LoadLock :: "ctx \<Rightarrow> ID \<Rightarrow> world \<Rightarrow> (error + Lock) \<times> world" where
  "LoadLock c i w =
     (case LoadJSONUnpacked c i w of
        (Inl e, w1) \<Rightarrow> (Inl (Foreign e), w1)
      | (Inr l, w1) \<Rightarrow> (Inr (l\<lparr> lockID := Some i \<rparr>), w1))"

subsection \<open>Staleness\<close>

text \<open>
  \<^verbatim>\<open>time.Since(l.Time)\<close>: the difference of two instants as a duration, which saturates
  at the ends of the 64-bit range.
\<close>

definition timeSince :: "instant \<Rightarrow> instant \<Rightarrow> duration" where
  "timeSince now t = max (- (2 ^ 63)) (min (2 ^ 63 - 1) (now - t))"

definition Stale :: "tunables \<Rightarrow> os \<Rightarrow> instant \<Rightarrow> Lock \<Rightarrow> bool" where
  "Stale v sys now l =
     (if timeSince now (Time l) > StaleLockTimeout v then True
      else case osHostname sys of
             Inl e \<Rightarrow> False
           | Inr hn \<Rightarrow>
               if hn \<noteq> Hostname l then False
               else if \<not> processExists sys (PID l) then True
               else False)"

subsection \<open>Refreshing\<close>

text \<open>
  \<^verbatim>\<open>Refresh\<close>. The new time is stamped before the save; after the save the id is swapped
  and only then the old object is removed. Dereferencing a nil \<^verbatim>\<open>oldLockID\<close> panics, after
  the swap.
\<close>

definition Refresh :: "ctx \<Rightarrow> repo \<Rightarrow> Lock \<Rightarrow> world \<Rightarrow> error option \<times> Lock \<times> world" where
  "Refresh c r l w =
     (let l1 = l\<lparr> Time := clock w \<rparr>
      in case createLock c r l1 w of
           (Inl e, w1) \<Rightarrow> (Some e, l1, w1)
         | (Inr i, w1) \<Rightarrow>
             (let oldLockID = lockID l1;
                  l2 = l1\<lparr> lockID := Some i \<rparr>;
                  c' = delayedCancelContext c UnlockCancelDelay w1
              in case oldLockID of
                   None \<Rightarrow> (Some NilDeref, l2, w1)
                 | Some old \<Rightarrow>
                     (case RemoveUnpacked c' old w1 of
                        (err, w2) \<Rightarrow> (foreign err, l2, w2))))"

text \<open>
  \<^verbatim>\<open>checkExistence\<close>. The callback dereferences \<^verbatim>\<open>l.lockID\<close> for every listed id, which
  panics on a nil \<^verbatim>\<open>lockID\<close> as soon as the listing has an entry.
\<close>

definition checkExistence :: "ctx \<Rightarrow> Lock \<Rightarrow> world \<Rightarrow> (error + bool) \<times> world" where
  "checkExistence c l w =
     (case repoList c w of
        (Inl e, w1) \<Rightarrow> (Inl (Foreign e), w1)
      | (Inr items, w1) \<Rightarrow>
          (case lockID l of
             None \<Rightarrow> (if items = [] then Inr False else Inl NilDeref, w1)
           | Some i \<Rightarrow> (Inr (i \<in> fst ` set items), w1)))"

text \<open>
  \<^verbatim>\<open>RefreshStaleLock\<close>. A panic of the second check unwinds without the cleanup; an error
  or an absent lock removes the replacement and returns.
\<close>

definition RefreshStaleLock ::
  "tunables \<Rightarrow> ctx \<Rightarrow> repo \<Rightarrow> Lock \<Rightarrow> world \<Rightarrow> error option \<times> Lock \<times> world" where
  "RefreshStaleLock v c r l w =
     (case checkExistence c l w of
        (Inl e, w1) \<Rightarrow> (Some e, l, w1)
      | (Inr False, w1) \<Rightarrow> (Some ErrRemovedLock, l, w1)
      | (Inr True, w1) \<Rightarrow>
          (let l1 = l\<lparr> Time := clock w1 \<rparr>
           in case createLock c r l1 w1 of
                (Inl e, w2) \<Rightarrow> (Some e, l1, w2)
              | (Inr i, w2) \<Rightarrow>
                  (let w3 = timeSleep (waitBeforeLockCheck v) w2
                   in case checkExistence c l1 w3 of
                        (res, w4) \<Rightarrow>
                          (let c' = delayedCancelContext c UnlockCancelDelay w4
                           in case res of
                                Inl NilDeref \<Rightarrow> (Some NilDeref, l1, w4)
                              | Inl e \<Rightarrow> (Some e, l1, snd (RemoveUnpacked c' i w4))
                              | Inr False \<Rightarrow>
                                  (Some ErrRemovedLock, l1, snd (RemoveUnpacked c' i w4))
                              | Inr True \<Rightarrow>
                                  (let oldLockID = lockID l1;
                                       l2 = l1\<lparr> lockID := Some i \<rparr>
                                   in case oldLockID of
                                        None \<Rightarrow> (Some NilDeref, l2, w4)
                                      | Some old \<Rightarrow>
                                          (case RemoveUnpacked c' old w4 of
                                             (err, w5) \<Rightarrow> (foreign err, l2, w5)))))))"

subsection \<open>Scanning for other locks\<close>

text \<open>
  Modelled from the spec: \<^verbatim>\<open>ParallelList\<close> is not in the source tree. It lists the
  objects and hands each one to the callback; \<^verbatim>\<open>ForAllLocks\<close> documents that the callback is
  never run concurrently and that an error of the callback cancels the listing and is
  returned. The model is the schedule in which the objects reach the callback in listing
  order (the only schedule with one connection): the first error ends the attempt and
  the objects after it are not visited. A failed listing delivers nothing. The state that
  the callback closes over is passed along as \<open>acc\<close>.
\<close>

fun visitAll ::
  "(ID \<Rightarrow> int \<Rightarrow> 'a \<Rightarrow> world \<Rightarrow> (error option \<times> 'a) \<times> world) \<Rightarrow>
   (ID \<times> int) list \<Rightarrow> 'a \<Rightarrow> world \<Rightarrow> (error option \<times> 'a) \<times> world" where
  "visitAll fn [] acc w = ((None, acc), w)"
| "visitAll fn ((i, sz) # rest) acc w =
     (case fn i sz acc w of
        ((Some e, acc1), w1) \<Rightarrow> ((Some e, acc1), w1)
      | ((None, acc1), w1) \<Rightarrow> visitAll fn rest acc1 w1)"

definition ParallelList ::
  "ctx \<Rightarrow> (ID \<Rightarrow> int \<Rightarrow> 'a \<Rightarrow> world \<Rightarrow> (error option \<times> 'a) \<times> world) \<Rightarrow>
   'a \<Rightarrow> world \<Rightarrow> (error option \<times> 'a) \<times> world" where
  "ParallelList c fn acc w =
     (case repoList c w of
        (Inl e, w1) \<Rightarrow> ((Some (Foreign e), acc), w1)
      | (Inr items, w1) \<Rightarrow> visitAll fn items acc w1)"

text \<open>
  The function that \<^verbatim>\<open>ForAllLocks\<close> passes to \<^verbatim>\<open>ParallelList\<close>: excluded ids and empty
  objects are skipped without a load; every other object is loaded and handed to \<open>fn\<close>
  with the result of the load.
\<close>

definition forLock ::
  "ctx \<Rightarrow> ID set \<Rightarrow> (ID \<Rightarrow> error + Lock \<Rightarrow> 'a \<Rightarrow> error option \<times> 'a) \<Rightarrow>
   ID \<Rightarrow> int \<Rightarrow> 'a \<Rightarrow> world \<Rightarrow> (error option \<times> 'a) \<times> world" where
  "forLock c excludeIDs fn i sz acc w =
     (if i \<in> excludeIDs then ((None, acc), w)
      else if sz = 0 then ((None, acc), w)
      else case LoadLock c i w of (res, w1) \<Rightarrow> (fn i res acc, w1))"

definition ForAllLocks ::
  "ctx \<Rightarrow> ID set \<Rightarrow> (ID \<Rightarrow> error + Lock \<Rightarrow> 'a \<Rightarrow> error option \<times> 'a) \<Rightarrow>
   'a \<Rightarrow> world \<Rightarrow> (error option \<times> 'a) \<times> world" where
  "ForAllLocks c excludeIDs fn acc w = ParallelList c (forLock c excludeIDs fn) acc w"

text \<open>
  The callback of \<^verbatim>\<open>checkForOtherLocks\<close>; the set is \<^verbatim>\<open>newCheckedIDs\<close>, which the closure
  updates.
\<close>

definition lockCallback ::
  "Lock \<Rightarrow> ID \<Rightarrow> error + Lock \<Rightarrow> ID set \<Rightarrow> error option \<times> ID set" where
  "lockCallback l i res newCheckedIDs =
     (case res of
        Inl err \<Rightarrow> (Some err, newCheckedIDs)
      | Inr lock \<Rightarrow>
          if Exclusive l then (Some (AlreadyLockedError lock), newCheckedIDs)
          else if \<not> Exclusive l \<and> Exclusive lock
            then (Some (AlreadyLockedError lock), newCheckedIDs)
          else (None, insert i newCheckedIDs))"

text \<open>What \<^verbatim>\<open>checkForOtherLocks\<close> returns after the loop has used all its rounds.\<close>

definition afterRetries :: "error option \<Rightarrow> error option" where
  "afterRetries err =
     (case err of
        None \<Rightarrow> None
      | Some e \<Rightarrow> if isInvalidData e then Some (InvalidLockError e) else Some e)"

text \<open>
  The loop \<^verbatim>\<open>for i := 0; i < 4; i++\<close>. The first argument is the number of rounds left,
  \<open>4 - i\<close>; the other arguments are the variables of the loop.
\<close>

fun retryLocking ::
  "nat \<Rightarrow> nat \<Rightarrow> ctx \<Rightarrow> Lock \<Rightarrow> ID set \<Rightarrow> duration \<Rightarrow> error option \<Rightarrow> world \<Rightarrow>
   error option \<times> world" where
  "retryLocking 0 i c l checkedIDs delay err w = (afterRetries err, w)"
| "retryLocking (Suc n) i c l checkedIDs delay err w =
     (case (if i \<noteq> 0 then cancelableDelay c delay w else (None, w)) of
        (Some e, w1) \<Rightarrow> (Some e, w1)
      | (None, w1) \<Rightarrow>
          (let delay1 = (if i \<noteq> 0 then wrap64 (delay * 2) else delay)
           in case ForAllLocks c checkedIDs (lockCallback l) checkedIDs w1 of
                ((None, newCheckedIDs), w2) \<Rightarrow> (None, w2)
              | ((Some e, newCheckedIDs), w2) \<Rightarrow>
                  if isAlreadyLockedError e then (Some e, w2)
                  else retryLocking n (Suc i) c l newCheckedIDs delay1 (Some e) w2))"

definition ownID :: "Lock \<Rightarrow> ID set" where
  "ownID l = (case lockID l of None \<Rightarrow> {} | Some i \<Rightarrow> {i})"

definition checkForOtherLocks :: "tunables \<Rightarrow> ctx \<Rightarrow> Lock \<Rightarrow> world \<Rightarrow> error option \<times> world" where
  "checkForOtherLocks v c l w =
     retryLocking 4 0 c l (ownID l) (initialWaitBetweenLockRetries v) None w"

subsection \<open>Acquisition\<close>

text \<open>
  The first lines of \<^verbatim>\<open>NewLock\<close>: the struct literal (the fields it does not name are
  zero) and the hostname, which stays blank when \<^verbatim>\<open>os.Hostname\<close> fails.
\<close>

definition newDescriptor :: "os \<Rightarrow> bool \<Rightarrow> instant \<Rightarrow> Lock" where
  "newDescriptor sys exclusive now =
     (let lock = \<lparr> Time = now, Exclusive = exclusive, Hostname = [], Username = [],
                   PID = osGetpid sys, UID = 0, GID = 0, lockID = None \<rparr>
      in case osHostname sys of Inr hn \<Rightarrow> lock\<lparr> Hostname := hn \<rparr> | Inl e \<Rightarrow> lock)"

definition NewLock ::
  "tunables \<Rightarrow> os \<Rightarrow> ctx \<Rightarrow> repo \<Rightarrow> bool \<Rightarrow> world \<Rightarrow> (error + Lock) \<times> world" where
  "NewLock v sys c r exclusive w =
     (let lock1 = newDescriptor sys exclusive (clock w)
      in case fillUserInfo sys lock1 of
           (lock2, Some e) \<Rightarrow> (Inl e, w)
         | (lock2, None) \<Rightarrow>
             (case checkForOtherLocks v c lock2 w of
                (Some e, w1) \<Rightarrow> (Inl e, w1)
              | (None, w1) \<Rightarrow>
                  (case createLock c r lock2 w1 of
                     (Inl e, w2) \<Rightarrow> (Inl e, w2)
                   | (Inr i, w2) \<Rightarrow>
                       (let lock3 = lock2\<lparr> lockID := Some i \<rparr>;
                            w3 = timeSleep (waitBeforeLockCheck v) w2
                        in case checkForOtherLocks v c lock3 w3 of
                             (Some e, w4) \<Rightarrow> (Inl e, snd (Unlock c (Some lock3) w4))
                           | (None, w4) \<Rightarrow> (Inr lock3, w4)))))"

subsection \<open>Reading a trace\<close>

text \<open>
  The delays that \<^verbatim>\<open>cancelableDelay\<close> was asked for, in order, and the number of
  listings, which is the number of scan attempts.
\<close>

fun delaysOf :: "event list \<Rightarrow> duration list" where
  "delaysOf [] = []"
| "delaysOf (EvDelay d # evs) = d # delaysOf evs"
| "delaysOf (e # evs) = delaysOf evs"

definition scansOf :: "event list \<Rightarrow> nat" where
  "scansOf evs = length (filter (\<lambda>e. e = EvList) evs)"

text \<open>
  The delays of \<open>n\<close> rounds of the retry loop that starts at index \<open>i\<close> with the delay
  \<open>d\<close>, when no round returns: none before the round 0, doubled after each use.
\<close>

fun backoff :: "nat \<Rightarrow> nat \<Rightarrow> duration \<Rightarrow> duration list" where
  "backoff 0 i d = []"
| "backoff (Suc n) i d =
     (if i \<noteq> 0 then d # backoff n (Suc i) (wrap64 (d * 2)) else backoff n (Suc i) d)"

subsection \<open>Concrete inputs\<close>

text \<open>
  A host \<open>alpha\<close> on which the process 4242 of user \<open>bob\<close> runs, a repository whose
  storage IDs are told apart by the time stamp, an empty store, and a store in which the
  exclusive lock 7 of that process is held.
\<close>

definition exampleOS :: os where
  "exampleOS = \<lparr> osHostname = Inr ''alpha'',
                 userCurrent = Inr \<lparr> uname = ''bob'', uidStr = ''1000'', gidStr = ''100'' \<rparr>,
                 osGetpid = 4242,
                 uidGidInt = (\<lambda>u. (1000, 100, None)),
                 processExists = (\<lambda>p. p = 4242) \<rparr>"

definition exampleRepo :: repo where
  "exampleRepo = \<lparr> idOf = (\<lambda>l. nat (Time l) + 100), sizeOf = (\<lambda>l. 150) \<rparr>"

definition emptyWorld :: world where
  "emptyWorld = \<lparr> objs = [], clock = 0, faults = [], peers = [], trace = [] \<rparr>"

definition exampleLock :: Lock where
  "exampleLock = \<lparr> Time = 0, Exclusive = True, Hostname = ''alpha'', Username = ''bob'',
                   PID = 4242, UID = 1000, GID = 100, lockID = Some 7 \<rparr>"

definition heldWorld :: world where
  "heldWorld = \<lparr> objs = [(7, \<lparr> osize = 150, body = Inr (exampleLock\<lparr> lockID := None \<rparr>) \<rparr>)],
                 clock = 1000, faults = [], peers = [], trace = [] \<rparr>"

text \<open>
  A process that wants a non-exclusive lock, and an empty store whose next four calls
  fail.
\<close>

definition readerLock :: Lock where
  "readerLock = \<lparr> Time = 1000, Exclusive = False, Hostname = ''beta'', Username = ''eve'',
                  PID = 77, UID = 1001, GID = 100, lockID = None \<rparr>"

text \<open>A store whose first object is malformed and whose second is the exclusive lock 7.\<close>

definition brokenWorld :: world where
  "brokenWorld = \<lparr> objs = [(1, \<lparr> osize = 80, body = Inl ErrInvalidData \<rparr>),
                           (7, \<lparr> osize = 150, body = Inr (exampleLock\<lparr> lockID := None \<rparr>) \<rparr>)],
                   clock = 1000, faults = [], peers = [], trace = [] \<rparr>"

definition failingWorld :: world where
  "failingWorld = \<lparr> objs = [], clock = 0,
                    faults = [Some (Failure ''io''), Some (Failure ''io''),
                              Some (Failure ''io''), Some (Failure ''io'')],
                    peers = [], trace = [] \<rparr>"

section \<open>Properties\<close>

subsection \<open>The store calls\<close>

lemma storeCall_eq:
  "storeCall c ev w =
     (if ctxDone c (clock w) then Some Canceled
      else (case faults w of [] \<Rightarrow> None | x # xs \<Rightarrow> x),
      w\<lparr> trace := trace w @ [ev], faults := tl (faults w) \<rparr>)"
  by (cases "faults w") (simp_all add: storeCall_def Let_def)

text \<open>The delayed context is never cancelled at the instant at which it is made.\<close>

lemma graceNotDone: "\<not> ctxDone (delayedCancelContext c UnlockCancelDelay w) (clock w)"
  by (cases c) (simp_all add: ctxDone_def delayedCancelContext_def UnlockCancelDelay_def minute_def)

lemma fst_upd: "fst (case x of (k, v) \<Rightarrow> if k = i then (k, ob) else (k, v)) = fst x"
  by (cases x) simp

lemma hasID_putObj: "hasID j (putObj i ob st) \<longleftrightarrow> j = i \<or> hasID j st"
proof (cases "hasID i st")
  case True
  then show ?thesis
    by (auto simp: hasID_def putObj_def image_image fst_upd)
next
  case False
  then show ?thesis
    by (auto simp: hasID_def putObj_def)
qed

lemma hasID_delObj: "hasID j (delObj i st) \<longleftrightarrow> j \<noteq> i \<and> hasID j st"
  by (force simp: hasID_def delObj_def)

lemma delObj_absent: "\<not> hasID i st \<Longrightarrow> delObj i st = st"
  by (induction st) (auto simp: hasID_def delObj_def)

lemma listed_ids: "fst ` (\<lambda>(i, ob). (i, osize ob)) ` set st = fst ` set st"
  by force

lemma take1_None:
  "set (take 1 fs) \<subseteq> {None} \<longleftrightarrow> (case fs of [] \<Rightarrow> None | x # xs \<Rightarrow> x) = None"
  by (cases fs) auto

lemma take2_None:
  "set (take 2 fs) \<subseteq> {None} \<Longrightarrow> (case tl fs of [] \<Rightarrow> None | x # xs \<Rightarrow> x) = None"
  by (cases fs; cases "tl fs") (auto simp: numeral_2_eq_2)

lemma timeSleep_fields:
  "faults (timeSleep d w) = faults w"
  "clock (timeSleep d w) = clock w + max d 0"
  "trace (timeSleep d w) = trace w @ [EvSleep d]"
  by (simp_all add: timeSleep_def advanceTo_def Let_def)

text \<open>A removal under the delayed context: only the store can make it fail.\<close>

lemma RemoveUnpacked_grace:
  "RemoveUnpacked (delayedCancelContext c UnlockCancelDelay w) i w =
     (case faults w of [] \<Rightarrow> None | x # xs \<Rightarrow> x,
      (w\<lparr> trace := trace w @ [EvRemove i], faults := tl (faults w) \<rparr>)
        \<lparr> objs := (case (case faults w of [] \<Rightarrow> None | x # xs \<Rightarrow> x) of
                     None \<Rightarrow> delObj i (objs w) | Some e \<Rightarrow> objs w) \<rparr>)"
  using graceNotDone[of c w]
  by (simp add: RemoveUnpacked_def storeCall_eq split: list.splits option.splits)

lemma checkExistence_Some:
  "lockID l = Some i \<Longrightarrow>
   checkExistence c l w =
     (if ctxDone c (clock w) then Inl (Foreign Canceled)
      else case (case faults w of [] \<Rightarrow> None | x # xs \<Rightarrow> x) of
             Some e \<Rightarrow> Inl (Foreign e)
           | None \<Rightarrow> Inr (hasID i (objs w)),
      w\<lparr> trace := trace w @ [EvList], faults := tl (faults w) \<rparr>)"
  by (simp add: checkExistence_def repoList_def storeCall_eq listed_ids hasID_def
        split: option.splits)

lemma Unlock_published:
  "lockID l = Some i \<Longrightarrow>
   Unlock c (Some l) w =
     (foreign (case faults w of [] \<Rightarrow> None | x # xs \<Rightarrow> x),
      (w\<lparr> trace := trace w @ [EvRemove i], faults := tl (faults w) \<rparr>)
        \<lparr> objs := (case (case faults w of [] \<Rightarrow> None | x # xs \<Rightarrow> x) of
                     None \<Rightarrow> delObj i (objs w) | Some e \<Rightarrow> objs w) \<rparr>)"
  by (simp add: Unlock_def RemoveUnpacked_grace)

text \<open>The rules with which a run on a concrete input is evaluated.\<close>

lemmas store_defs = storeCall_eq repoList_def LoadJSONUnpacked_def SaveJSONUnpacked_def
  RemoveUnpacked_def putObj_def delObj_def hasID_def ctxDone_def delayedCancelContext_def
  UnlockCancelDelay_def advanceTo_def timeSleep_def cancelableDelay_def foreign_def

lemmas lock_defs = createLock_def Unlock_def LoadLock_def checkExistence_def Refresh_def
  RefreshStaleLock_def ParallelList_def forLock_def ForAllLocks_def lockCallback_def
  afterRetries_def ownID_def checkForOtherLocks_def newDescriptor_def fillUserInfo_def
  NewLock_def Let_def

lemmas example_defs = exampleOS_def exampleRepo_def emptyWorld_def exampleLock_def
  heldWorld_def readerLock_def failingWorld_def brokenWorld_def defaults_def millisecond_def
  second_def
  minute_def wrap64_def

subsection \<open>Staleness\<close>

lemma timeSince_gt:
  "d < 2 ^ 63 - 1 \<Longrightarrow> - (2 ^ 63) \<le> d \<Longrightarrow> (timeSince now t > d) = (now - t > d)"
  unfolding timeSince_def by auto

lemma Stale_iff_gen:
  assumes "- (2 ^ 63) \<le> StaleLockTimeout v" "StaleLockTimeout v < 2 ^ 63 - 1"
  shows "Stale v sys now l \<longleftrightarrow>
     now - Time l > StaleLockTimeout v \<or>
     (osHostname sys = Inr (Hostname l) \<and> \<not> processExists sys (PID l))"
  using assms unfolding Stale_def
  by (auto simp: timeSince_gt split: sum.splits)

text \<open>
  C7. With the default threshold of 30 minutes, \<open>Stale\<close> is true exactly when the lock's
  time is more than 30 minutes before now, or the current hostname is known and equal to
  the lock's hostname and the recorded process does not exist. When the current hostname
  cannot be determined the host criterion contributes nothing, and for a lock of another
  host likewise: in both cases the answer is the age criterion alone, so a lock within
  the threshold is not stale.
\<close>

theorem Stale_iff:
  "(Stale defaults sys now l \<longleftrightarrow>
     now - Time l > 30 * minute \<or>
     (osHostname sys = Inr (Hostname l) \<and> \<not> processExists sys (PID l)))
   \<and> ((\<exists>e. osHostname sys = Inl e) \<longrightarrow>
        (Stale defaults sys now l \<longleftrightarrow> now - Time l > 30 * minute))
   \<and> ((\<exists>hn. osHostname sys = Inr hn \<and> hn \<noteq> Hostname l) \<longrightarrow>
        (Stale defaults sys now l \<longleftrightarrow> now - Time l > 30 * minute))"
proof -
  have b: "- (2 ^ 63) \<le> StaleLockTimeout defaults" "StaleLockTimeout defaults < 2 ^ 63 - 1"
    by (simp_all add: defaults_def minute_def)
  have t: "StaleLockTimeout defaults = 30 * minute" by (simp add: defaults_def)
  show ?thesis using Stale_iff_gen[OF b] unfolding t by auto
qed

theorem Stale_iff_witness:
  "(\<exists>e. osHostname (exampleOS\<lparr> osHostname := Inl (Failure ''no hostname'') \<rparr>) = Inl e)
   \<and> \<not> Stale defaults (exampleOS\<lparr> osHostname := Inl (Failure ''no hostname'') \<rparr>)
          (10 * minute) (exampleLock\<lparr> PID := 999999 \<rparr>)
   \<and> Stale defaults (exampleOS\<lparr> osHostname := Inl (Failure ''no hostname'') \<rparr>)
          (45 * minute) exampleLock
   \<and> (\<exists>hn. osHostname (exampleOS\<lparr> osHostname := Inr ''beta'' \<rparr>) = Inr hn
          \<and> hn \<noteq> Hostname exampleLock)
   \<and> \<not> Stale defaults (exampleOS\<lparr> osHostname := Inr ''beta'' \<rparr>)
          (10 * minute) (exampleLock\<lparr> PID := 999999 \<rparr>)
   \<and> Stale defaults exampleOS 0 (exampleLock\<lparr> PID := 999999 \<rparr>)
   \<and> \<not> Stale defaults exampleOS (30 * minute) exampleLock"
  using Stale_iff [of "exampleOS\<lparr> osHostname := Inl (Failure ''no hostname'') \<rparr>"
                     "10 * minute" "exampleLock\<lparr> PID := 999999 \<rparr>"]
        Stale_iff [of "exampleOS\<lparr> osHostname := Inl (Failure ''no hostname'') \<rparr>"
                     "45 * minute" exampleLock]
        Stale_iff [of "exampleOS\<lparr> osHostname := Inr ''beta'' \<rparr>"
                     "10 * minute" "exampleLock\<lparr> PID := 999999 \<rparr>"]
        Stale_iff [of exampleOS 0 "exampleLock\<lparr> PID := 999999 \<rparr>"]
        Stale_iff [of exampleOS "30 * minute" exampleLock]
  by (simp add: exampleOS_def exampleLock_def minute_def)

subsection \<open>Refresh\<close>

text \<open>
  C10. When the save of the replacement succeeds and the removal of the old object then
  fails with \<open>e\<close>, \<open>Refresh\<close> returns that error, and the lock it leaves behind has the
  new id and the new time stamp: the state is not rolled back. The old object is still
  in the store (if it was there), next to the new one.
\<close>

theorem Refresh_swaps_before_remove:
  assumes old: "lockID l = Some old"
      and nd: "\<not> ctxDone c (clock w)"
      and fs: "faults w = None # Some e # fs"
  shows "fst (Refresh c r l w) = Some (Foreign e)
       \<and> lockID (fst (snd (Refresh c r l w)))
           = Some (idOf r (l\<lparr> Time := clock w, lockID := None \<rparr>))
       \<and> Time (fst (snd (Refresh c r l w))) = clock w
       \<and> (hasID old (objs w) \<longrightarrow> hasID old (objs (snd (snd (Refresh c r l w)))))
       \<and> hasID (idOf r (l\<lparr> Time := clock w, lockID := None \<rparr>))
           (objs (snd (snd (Refresh c r l w))))"
  using assms
    graceNotDone[of c "w\<lparr>trace := trace w @ [EvSave (idOf r (l\<lparr> Time := clock w, lockID := None \<rparr>))],
      faults := Some e # fs,
      objs := putObj (idOf r (l\<lparr> Time := clock w, lockID := None \<rparr>))
                \<lparr>osize = sizeOf r (l\<lparr> Time := clock w, lockID := None \<rparr>),
                 body = Inr (l\<lparr> Time := clock w, lockID := None \<rparr>)\<rparr> (objs w)\<rparr>"]
  by (simp add: Refresh_def createLock_def SaveJSONUnpacked_def RemoveUnpacked_def
         storeCall_eq Let_def foreign_def hasID_putObj)

theorem Refresh_swaps_before_remove_witness:
  "lockID exampleLock = Some 7
   \<and> \<not> ctxDone None (clock heldWorld)
   \<and> faults (heldWorld\<lparr> faults := [None, Some (Failure ''timeout'')] \<rparr>)
       = None # Some (Failure ''timeout'') # []
   \<and> hasID 7 (objs heldWorld)
   \<and> fst (Refresh None exampleRepo exampleLock
            (heldWorld\<lparr> faults := [None, Some (Failure ''timeout'')] \<rparr>))
       = Some (Foreign (Failure ''timeout''))
   \<and> lockID (fst (snd (Refresh None exampleRepo exampleLock
            (heldWorld\<lparr> faults := [None, Some (Failure ''timeout'')] \<rparr>)))) = Some 1100
   \<and> hasID 7 (objs (snd (snd (Refresh None exampleRepo exampleLock
            (heldWorld\<lparr> faults := [None, Some (Failure ''timeout'')] \<rparr>)))))
   \<and> hasID 1100 (objs (snd (snd (Refresh None exampleRepo exampleLock
            (heldWorld\<lparr> faults := [None, Some (Failure ''timeout'')] \<rparr>)))))"
proof -
  have h1: "lockID exampleLock = Some 7" by (simp add: exampleLock_def)
  have h2: "\<not> ctxDone None (clock (heldWorld\<lparr> faults := [None, Some (Failure ''timeout'')] \<rparr>))"
    by (simp add: ctxDone_def)
  have h3: "faults (heldWorld\<lparr> faults := [None, Some (Failure ''timeout'')] \<rparr>)
              = None # Some (Failure ''timeout'') # []" by simp
  have h4: "hasID 7 (objs heldWorld)" by (simp add: heldWorld_def hasID_def)
  show ?thesis
    using Refresh_swaps_before_remove [OF h1 h2 h3, of exampleRepo] h1 h3 h4
    by (simp add: exampleRepo_def exampleLock_def heldWorld_def ctxDone_def)
qed


text \<open>
  C8. The lock has the id \<open>old\<close>. The first existence check finds it, the replacement is
  saved under \<open>new\<close>, and when the settle sleep is over the old object is gone from the
  store. If the second listing then answers (the context is not cancelled, the store call
  does not fail), \<open>RefreshStaleLock\<close> returns \<open>ErrRemovedLock\<close> and leaves \<open>lockID\<close> at
  \<open>old\<close>; and if the removal of the replacement does not fail either, the store holds
  neither \<open>old\<close> nor \<open>new\<close> afterwards.
\<close>

theorem RefreshStaleLock_vanished:
  assumes id: "lockID l = Some old"
      and first: "checkExistence c l w = (Inr True, w1)"
      and pub: "createLock c r (l\<lparr> Time := clock w1 \<rparr>) w1 = (Inr new, w2)"
      and w3: "w3 = timeSleep (waitBeforeLockCheck v) w2"
      and gone: "\<not> hasID old (objs w3)"
      and live: "\<not> ctxDone c (clock w3)"
      and listed: "set (take 1 (faults w3)) \<subseteq> {None}"
  shows "fst (RefreshStaleLock v c r l w) = Some ErrRemovedLock
       \<and> lockID (fst (snd (RefreshStaleLock v c r l w))) = Some old
       \<and> (set (take 2 (faults w3)) \<subseteq> {None} \<longrightarrow>
            \<not> hasID old (objs (snd (snd (RefreshStaleLock v c r l w))))
            \<and> \<not> hasID new (objs (snd (snd (RefreshStaleLock v c r l w)))))"
proof -
  let ?l1 = "l\<lparr> Time := clock w1 \<rparr>"
  have id1: "lockID ?l1 = Some old" using id by simp
  let ?w4 = "w3\<lparr> trace := trace w3 @ [EvList], faults := tl (faults w3) \<rparr>"
  have second: "checkExistence c ?l1 w3 = (Inr False, ?w4)"
    using gone live listed[unfolded take1_None] by (simp add: checkExistence_Some[OF id1])
  have run: "RefreshStaleLock v c r l w =
      (Some ErrRemovedLock, ?l1,
       snd (RemoveUnpacked (delayedCancelContext c UnlockCancelDelay ?w4) new ?w4))"
    using first pub second w3 by (simp add: RefreshStaleLock_def Let_def)
  have rem: "set (take 2 (faults w3)) \<subseteq> {None} \<Longrightarrow>
     objs (snd (RemoveUnpacked (delayedCancelContext c UnlockCancelDelay ?w4) new ?w4))
       = delObj new (objs w3)"
    by (simp add: RemoveUnpacked_grace take2_None)
  show ?thesis
    using run rem gone id by (auto simp: hasID_delObj)
qed

theorem RefreshStaleLock_vanished_witness:
  "lockID exampleLock = Some 7
   \<and> fst (checkExistence None exampleLock (heldWorld\<lparr> peers := [(1500, PeerDel 7)] \<rparr>))
       = Inr True
   \<and> fst (RefreshStaleLock defaults None exampleRepo exampleLock
            (heldWorld\<lparr> peers := [(1500, PeerDel 7)] \<rparr>)) = Some ErrRemovedLock
   \<and> lockID (fst (snd (RefreshStaleLock defaults None exampleRepo exampleLock
            (heldWorld\<lparr> peers := [(1500, PeerDel 7)] \<rparr>)))) = Some 7
   \<and> \<not> hasID 7 (objs (snd (snd (RefreshStaleLock defaults None exampleRepo exampleLock
            (heldWorld\<lparr> peers := [(1500, PeerDel 7)] \<rparr>)))))
   \<and> \<not> hasID 1100 (objs (snd (snd (RefreshStaleLock defaults None exampleRepo exampleLock
            (heldWorld\<lparr> peers := [(1500, PeerDel 7)] \<rparr>)))))"
proof -
  define w where "w = heldWorld\<lparr> peers := [(1500, PeerDel 7)] \<rparr>"
  define w1 where "w1 = snd (checkExistence None exampleLock w)"
  define w2 where "w2 = snd (createLock None exampleRepo (exampleLock\<lparr> Time := clock w1 \<rparr>) w1)"
  define w3 where "w3 = timeSleep (waitBeforeLockCheck defaults) w2"
  have h1: "lockID exampleLock = Some 7" by (simp add: exampleLock_def)
  have h2: "checkExistence None exampleLock w = (Inr True, w1)"
    unfolding w1_def w_def by (simp add: store_defs lock_defs example_defs)
  have h3: "createLock None exampleRepo (exampleLock\<lparr> Time := clock w1 \<rparr>) w1 = (Inr 1100, w2)"
    unfolding w2_def w1_def w_def by (simp add: store_defs lock_defs example_defs)
  have h4: "w3 = timeSleep (waitBeforeLockCheck defaults) w2" by (simp add: w3_def)
  have h5: "\<not> hasID 7 (objs w3)"
    unfolding w3_def w2_def w1_def w_def by (simp add: store_defs lock_defs example_defs)
  have h6: "\<not> ctxDone None (clock w3)" by (simp add: ctxDone_def)
  have h7: "set (take 1 (faults w3)) \<subseteq> {None}"
    unfolding w3_def w2_def w1_def w_def by (simp add: store_defs lock_defs example_defs)
  have h8: "set (take 2 (faults w3)) \<subseteq> {None}"
    unfolding w3_def w2_def w1_def w_def by (simp add: store_defs lock_defs example_defs)
  show ?thesis
    using RefreshStaleLock_vanished [OF h1 h2 h3 h4 h5 h6 h7] h1 h2 h8
    unfolding w_def by simp
qed

subsection \<open>Release\<close>

text \<open>
  C9, as the code has it. Releasing a nil lock or a lock without an id returns no error
  and touches nothing. \<open>Unlock\<close> does not clear \<open>lockID\<close>, so releasing a lock a second
  time calls the store's removal again: after a first release that succeeded the id is
  absent, and the second release returns what that call returns, no error with the store
  unchanged when the call does not fail, and the store's error when it does.
\<close>

theorem Unlock_idempotent:
  "Unlock c None w = (None, w)
   \<and> (lockID l = None \<longrightarrow> Unlock c (Some l) w = (None, w))
   \<and> (lockID l = Some i \<and> Unlock c (Some l) w = (None, w1) \<longrightarrow>
        \<not> hasID i (objs w1)
        \<and> (set (take 1 (faults w1)) \<subseteq> {None} \<longrightarrow>
             fst (Unlock c' (Some l) w1) = None
             \<and> objs (snd (Unlock c' (Some l) w1)) = objs w1)
        \<and> (\<forall>e. take 1 (faults w1) = [Some e] \<longrightarrow>
             fst (Unlock c' (Some l) w1) = Some (Foreign e)
             \<and> objs (snd (Unlock c' (Some l) w1)) = objs w1))"
proof -
  have a: "Unlock c None w = (None, w)" by (simp add: Unlock_def)
  have b: "lockID l = None \<longrightarrow> Unlock c (Some l) w = (None, w)" by (simp add: Unlock_def)
  have d: "\<not> hasID i (objs w1)
        \<and> (set (take 1 (faults w1)) \<subseteq> {None} \<longrightarrow>
             fst (Unlock c' (Some l) w1) = None
             \<and> objs (snd (Unlock c' (Some l) w1)) = objs w1)
        \<and> (\<forall>e. take 1 (faults w1) = [Some e] \<longrightarrow>
             fst (Unlock c' (Some l) w1) = Some (Foreign e)
             \<and> objs (snd (Unlock c' (Some l) w1)) = objs w1)"
    if i: "lockID l = Some i" and ok: "Unlock c (Some l) w = (None, w1)"
  proof -
    from i ok have o1: "objs w1 = delObj i (objs w)"
      by (auto simp: Unlock_published foreign_def split: list.splits option.splits)
    have gone: "\<not> hasID i (objs w1)" by (simp add: o1 hasID_delObj)
    have s2: "set (take 1 (faults w1)) \<subseteq> {None} \<longrightarrow>
             fst (Unlock c' (Some l) w1) = None \<and> objs (snd (Unlock c' (Some l) w1)) = objs w1"
      using i gone by (cases "faults w1") (auto simp: Unlock_published foreign_def delObj_absent)
    have s3: "\<forall>e. take 1 (faults w1) = [Some e] \<longrightarrow>
             fst (Unlock c' (Some l) w1) = Some (Foreign e)
             \<and> objs (snd (Unlock c' (Some l) w1)) = objs w1"
      using i by (cases "faults w1") (auto simp: Unlock_published foreign_def)
    from gone s2 s3 show ?thesis by blast
  qed
  from a b d show ?thesis by blast
qed

theorem Unlock_idempotent_witness:
  "lockID (exampleLock\<lparr> lockID := None \<rparr>) = None
   \<and> Unlock None (Some (exampleLock\<lparr> lockID := None \<rparr>)) heldWorld = (None, heldWorld)
   \<and> lockID exampleLock = Some 7
   \<and> Unlock None (Some exampleLock) heldWorld
       = (None, heldWorld\<lparr> objs := [], trace := [EvRemove 7] \<rparr>)
   \<and> set (take 1 (faults (heldWorld\<lparr> objs := [], trace := [EvRemove 7] \<rparr>))) \<subseteq> {None}
   \<and> fst (Unlock None (Some exampleLock) (heldWorld\<lparr> objs := [], trace := [EvRemove 7] \<rparr>))
       = None
   \<and> objs (snd (Unlock None (Some exampleLock)
                  (heldWorld\<lparr> objs := [], trace := [EvRemove 7] \<rparr>))) = []"
proof -
  have h1: "lockID exampleLock = Some 7
            \<and> Unlock None (Some exampleLock) heldWorld
                = (None, heldWorld\<lparr> objs := [], trace := [EvRemove 7] \<rparr>)"
    by (simp add: store_defs lock_defs example_defs)
  have h2: "set (take 1 (faults (heldWorld\<lparr> objs := [], trace := [EvRemove 7] \<rparr>))) \<subseteq> {None}"
    by (simp add: heldWorld_def)
  have h3: "lockID (exampleLock\<lparr> lockID := None \<rparr>) = None" by simp
  show ?thesis
    using Unlock_idempotent [of None heldWorld exampleLock 7
             "heldWorld\<lparr> objs := [], trace := [EvRemove 7] \<rparr>" None]
          Unlock_idempotent [of None heldWorld "exampleLock\<lparr> lockID := None \<rparr>" 7
             "heldWorld\<lparr> objs := [], trace := [EvRemove 7] \<rparr>" None]
          h1 h2 h3
    by simp
qed

text \<open>
  The claim as the spec words it fails: the second release of a published lock is a
  store call, and when that call fails the release returns the error.
\<close>

theorem Unlock_twice_counterexample:
  "fst (Unlock None (Some exampleLock)
          (heldWorld\<lparr> faults := [None, Some (Failure ''timeout'')] \<rparr>)) = None
   \<and> fst (Unlock None (Some exampleLock)
          (snd (Unlock None (Some exampleLock)
                  (heldWorld\<lparr> faults := [None, Some (Failure ''timeout'')] \<rparr>))))
       = Some (Foreign (Failure ''timeout''))
   \<and> trace (snd (Unlock None (Some exampleLock)
          (snd (Unlock None (Some exampleLock)
                  (heldWorld\<lparr> faults := [None, Some (Failure ''timeout'')] \<rparr>)))))
       = [EvRemove 7, EvRemove 7]"
  by (simp add: store_defs lock_defs example_defs)

subsection \<open>The user fields of a new lock\<close>

text \<open>
  C6, as the code has it. When the current user cannot be determined, \<open>fillUserInfo\<close>
  returns no error and leaves the lock as it is, so \<open>NewLock\<close> runs exactly as it does on
  a system whose user has blank fields, and a lock it returns has a blank user name and
  uid and gid 0. When the user is known but \<open>uidGidInt\<close> fails, \<open>NewLock\<close> returns
  that error, before any store call.
\<close>

theorem fillUserInfo_best_effort:
  "(userCurrent sys = Inl e \<longrightarrow>
      fillUserInfo sys l = (l, None)
      \<and> NewLock v sys c r ex w =
          NewLock v (sys\<lparr> userCurrent := Inr \<lparr> uname = [], uidStr = [], gidStr = [] \<rparr>,
                          uidGidInt := (\<lambda>u. (0, 0, None)) \<rparr>) c r ex w
      \<and> (\<forall>lock. fst (NewLock v sys c r ex w) = Inr lock \<longrightarrow>
            Username lock = [] \<and> UID lock = 0 \<and> GID lock = 0))
   \<and> (userCurrent sys = Inr usr \<and> uidGidInt sys usr = (u, g, None) \<longrightarrow>
      fillUserInfo sys l = (l\<lparr> Username := uname usr, UID := u, GID := g \<rparr>, None))
   \<and> (userCurrent sys = Inr usr \<and> uidGidInt sys usr = (u, g, Some e') \<longrightarrow>
      NewLock v sys c r ex w = (Inl (Foreign e'), w))"
proof -
  let ?blank = "sys\<lparr> userCurrent := Inr \<lparr> uname = [], uidStr = [], gidStr = [] \<rparr>,
                      uidGidInt := (\<lambda>u. (0, 0, None)) \<rparr>"
  have d: "newDescriptor ?blank ex (clock w) = newDescriptor sys ex (clock w)"
    by (simp add: newDescriptor_def)
  have blank: "Username (newDescriptor sys ex t) = [] \<and> UID (newDescriptor sys ex t) = 0
      \<and> GID (newDescriptor sys ex t) = 0" for t
    by (simp add: newDescriptor_def Let_def split: sum.splits)
  have fb: "fillUserInfo ?blank (newDescriptor sys ex (clock w))
              = (newDescriptor sys ex (clock w), None)"
    using blank[of "clock w"] by (simp add: fillUserInfo_def foreign_def)
  have a1: "userCurrent sys = Inl e \<Longrightarrow> fillUserInfo sys l = (l, None)" for l
    by (simp add: fillUserInfo_def)
  have a2: "userCurrent sys = Inl e \<Longrightarrow> NewLock v sys c r ex w = NewLock v ?blank c r ex w"
    unfolding NewLock_def Let_def d fb by (simp add: a1)
  have a3: "userCurrent sys = Inl e \<Longrightarrow> fst (NewLock v sys c r ex w) = Inr lock \<Longrightarrow>
            Username lock = [] \<and> UID lock = 0 \<and> GID lock = 0" for lock
    using blank[of "clock w"]
    by (auto simp: NewLock_def Let_def a1 split: prod.splits option.splits sum.splits)
  have b: "userCurrent sys = Inr usr \<and> uidGidInt sys usr = (u, g, None) \<longrightarrow>
      fillUserInfo sys l = (l\<lparr> Username := uname usr, UID := u, GID := g \<rparr>, None)"
    by (simp add: fillUserInfo_def foreign_def)
  have c: "userCurrent sys = Inr usr \<and> uidGidInt sys usr = (u, g, Some e') \<longrightarrow>
      NewLock v sys c r ex w = (Inl (Foreign e'), w)"
    by (simp add: NewLock_def fillUserInfo_def foreign_def Let_def)
  from a1 a2 a3 b c show ?thesis by blast
qed

lemma NewLock_without_user:
  "fst (NewLock defaults (exampleOS\<lparr> userCurrent := Inl (Failure ''unknown user'') \<rparr>)
          None exampleRepo True emptyWorld)
   = Inr \<lparr> Time = 0, Exclusive = True, Hostname = ''alpha'', Username = [],
           PID = 4242, UID = 0, GID = 0, lockID = Some 100 \<rparr>"
  by (simp add: store_defs lock_defs example_defs numeral_eq_Suc)

theorem fillUserInfo_best_effort_witness:
  "userCurrent (exampleOS\<lparr> userCurrent := Inl (Failure ''unknown user'') \<rparr>)
     = Inl (Failure ''unknown user'')
   \<and> fillUserInfo (exampleOS\<lparr> userCurrent := Inl (Failure ''unknown user'') \<rparr>) exampleLock
       = (exampleLock, None)
   \<and> (\<exists>lock. fst (NewLock defaults (exampleOS\<lparr> userCurrent := Inl (Failure ''unknown user'') \<rparr>)
                     None exampleRepo True emptyWorld) = Inr lock
             \<and> Username lock = [] \<and> UID lock = 0 \<and> GID lock = 0)
   \<and> userCurrent exampleOS = Inr \<lparr> uname = ''bob'', uidStr = ''1000'', gidStr = ''100'' \<rparr>
   \<and> uidGidInt exampleOS \<lparr> uname = ''bob'', uidStr = ''1000'', gidStr = ''100'' \<rparr>
       = (1000, 100, None)
   \<and> fillUserInfo exampleOS (exampleLock\<lparr> Username := [], UID := 0, GID := 0 \<rparr>)
       = (exampleLock, None)
   \<and> uidGidInt (exampleOS\<lparr> uidGidInt := (\<lambda>u. (0, 0, Some (Failure ''invalid uid''))) \<rparr>)
        \<lparr> uname = ''bob'', uidStr = ''1000'', gidStr = ''100'' \<rparr>
       = (0, 0, Some (Failure ''invalid uid''))
   \<and> NewLock defaults (exampleOS\<lparr> uidGidInt := (\<lambda>u. (0, 0, Some (Failure ''invalid uid''))) \<rparr>)
        None exampleRepo True heldWorld = (Inl (Foreign (Failure ''invalid uid'')), heldWorld)"
  using fillUserInfo_best_effort
          [where sys = "exampleOS\<lparr> userCurrent := Inl (Failure ''unknown user'') \<rparr>"
             and e = "Failure ''unknown user''" and l = exampleLock and v = defaults
             and c = None and r = exampleRepo and ex = True and w = emptyWorld]
        fillUserInfo_best_effort
          [where sys = exampleOS
             and usr = "\<lparr> uname = ''bob'', uidStr = ''1000'', gidStr = ''100'' \<rparr>"
             and u = 1000 and g = 100
             and l = "exampleLock\<lparr> Username := [], UID := 0, GID := 0 \<rparr>"]
        fillUserInfo_best_effort
          [where sys = "exampleOS\<lparr> uidGidInt := (\<lambda>u. (0, 0, Some (Failure ''invalid uid''))) \<rparr>"
             and usr = "\<lparr> uname = ''bob'', uidStr = ''1000'', gidStr = ''100'' \<rparr>"
             and u = 0 and g = 0 and e' = "Failure ''invalid uid''" and v = defaults
             and c = None and r = exampleRepo and ex = True and w = heldWorld]
        NewLock_without_user
  by (simp add: exampleOS_def exampleLock_def)

text \<open>
  The claim as the spec words it fails: a user whose numeric ids cannot be determined
  makes \<open>NewLock\<close> return an error.
\<close>

theorem NewLock_uid_counterexample:
  "NewLock defaults (exampleOS\<lparr> uidGidInt := (\<lambda>u. (0, 0, Some (Failure ''invalid uid''))) \<rparr>)
      None exampleRepo False emptyWorld
     = (Inl (Foreign (Failure ''invalid uid'')), emptyWorld)"
  by (simp add: NewLock_def fillUserInfo_def foreign_def exampleOS_def Let_def)


subsection \<open>One scan, and the retry loop\<close>

lemma delaysOf_append: "delaysOf (xs @ ys) = delaysOf xs @ delaysOf ys"
  by (induction xs rule: delaysOf.induct) auto

lemma delaysOf_loads: "delaysOf (map EvLoad ks) = []"
  by (induction ks) auto

lemma scansOf_append: "scansOf (xs @ ys) = scansOf xs + scansOf ys"
  by (simp add: scansOf_def)

lemma scansOf_Cons: "scansOf (e # es) = (if e = EvList then 1 else 0) + scansOf es"
  by (simp add: scansOf_def)

lemma scansOf_loads: "scansOf (map EvLoad ks) = 0"
  by (induction ks) (auto simp: scansOf_def)

lemma LoadLock_eq:
  "LoadLock c i w =
     (if ctxDone c (clock w) then Inl (Foreign Canceled)
      else case (case faults w of [] \<Rightarrow> None | x # xs \<Rightarrow> x) of
             Some e \<Rightarrow> Inl (Foreign e)
           | None \<Rightarrow> (case map_of (objs w) i of
                        None \<Rightarrow> Inl (Foreign (Failure ''not found''))
                      | Some ob \<Rightarrow> (case body ob of Inl e \<Rightarrow> Inl (Foreign e)
                                     | Inr l \<Rightarrow> Inr (l\<lparr> lockID := Some i \<rparr>))),
      w\<lparr> trace := trace w @ [EvLoad i], faults := tl (faults w) \<rparr>)"
  by (simp add: LoadLock_def LoadJSONUnpacked_def storeCall_eq split: option.splits sum.splits)

lemma LoadLock_cases:
  "(\<exists>f. fst (LoadLock c i w) = Inl (Foreign f)) \<or> (\<exists>lk. fst (LoadLock c i w) = Inr lk \<and> lockID lk = Some i)"
  by (auto simp: LoadLock_eq split: option.splits sum.splits)

lemma LoadLock_world:
  "snd (LoadLock c i w) = w\<lparr> trace := trace w @ [EvLoad i], faults := tl (faults w) \<rparr>"
  by (simp add: LoadLock_eq)



lemma visitAll_step:
  "visitAll (forLock c X (lockCallback l)) ((i, sz) # rest) acc w =
     (if i \<in> X \<or> sz = 0 then visitAll (forLock c X (lockCallback l)) rest acc w
      else case lockCallback l i (fst (LoadLock c i w)) acc of
             (Some e, acc1) \<Rightarrow> ((Some e, acc1), snd (LoadLock c i w))
           | (None, acc1) \<Rightarrow>
               visitAll (forLock c X (lockCallback l)) rest acc1 (snd (LoadLock c i w)))"
  by (simp add: forLock_def split: prod.splits option.splits)

lemma lockCallback_cases:
  assumes "lockCallback l i res acc = (r, acc')"
  shows "acc \<subseteq> acc'"
    and "r = None \<or> (\<exists>e. res = Inl e \<and> r = Some e)
          \<or> (\<exists>lk. res = Inr lk \<and> r = Some (AlreadyLockedError lk) \<and> (Exclusive l \<or> Exclusive lk))"
  using assms by (auto simp: lockCallback_def split: sum.splits if_splits)

lemma visitAll_scan:
  assumes "visitAll (forLock c X (lockCallback l)) items acc w = ((r, acc'), w')"
  shows "\<exists>ks. trace w' = trace w @ map EvLoad ks
           \<and> clock w' = clock w \<and> objs w' = objs w \<and> peers w' = peers w
           \<and> acc \<subseteq> acc'
           \<and> (r = None \<or> (\<exists>f. r = Some (Foreign f))
               \<or> (\<exists>lk k. r = Some (AlreadyLockedError lk) \<and> lockID lk = Some k \<and> k \<notin> X
                      \<and> (Exclusive l \<or> Exclusive lk) \<and> ks \<noteq> [] \<and> last ks = k))"
  using assms
proof (induction items arbitrary: acc w)
  case Nil
  then show ?case by (intro exI[of _ "[]"]) simp
next
  case (Cons it items)
  obtain i sz where it: "it = (i, sz)" by (cases it)
  show ?case
  proof (cases "i \<in> X \<or> sz = 0")
    case True
    with Cons.prems it have "visitAll (forLock c X (lockCallback l)) items acc w = ((r, acc'), w')"
      by (simp add: visitAll_step del: visitAll.simps)
    from Cons.IH[OF this] show ?thesis .
  next
    case False
    obtain r1 acc1 where cb: "lockCallback l i (fst (LoadLock c i w)) acc = (r1, acc1)"
      by (cases "lockCallback l i (fst (LoadLock c i w)) acc")
    let ?w1 = "snd (LoadLock c i w)"
    have w1: "trace ?w1 = trace w @ [EvLoad i]" "clock ?w1 = clock w" "objs ?w1 = objs w"
      "peers ?w1 = peers w" by (simp_all add: LoadLock_world)
    note cc = lockCallback_cases[OF cb]
    show ?thesis
    proof (cases r1)
      case None
      with Cons.prems it False cb
      have "visitAll (forLock c X (lockCallback l)) items acc1 ?w1 = ((r, acc'), w')"
        by (simp add: visitAll_step del: visitAll.simps)
      from Cons.IH[OF this] obtain ks where
        ks: "trace w' = trace ?w1 @ map EvLoad ks" "clock w' = clock ?w1" "objs w' = objs ?w1"
          "peers w' = peers ?w1" "acc1 \<subseteq> acc'"
          "(r = None \<or> (\<exists>f. r = Some (Foreign f))
               \<or> (\<exists>lk k. r = Some (AlreadyLockedError lk) \<and> lockID lk = Some k \<and> k \<notin> X
                      \<and> (Exclusive l \<or> Exclusive lk) \<and> ks \<noteq> [] \<and> last ks = k))"
        by blast
      show ?thesis
        using ks w1 cc(1) by (intro exI[of _ "i # ks"]) auto
    next
      case (Some e)
      with Cons.prems it False cb have res: "r = Some e" "acc' = acc1" "w' = ?w1"
        by (simp_all add: visitAll_step del: visitAll.simps)
      have "(\<exists>f. r = Some (Foreign f))
               \<or> (\<exists>lk. r = Some (AlreadyLockedError lk) \<and> lockID lk = Some i
                      \<and> (Exclusive l \<or> Exclusive lk))"
        using cc(2) Some res(1) LoadLock_cases[of c i w] by auto
      then show ?thesis
        using res w1 cc(1) False by (intro exI[of _ "[i]"]) auto
    qed
  qed
qed

lemma ForAllLocks_scan:
  assumes "ForAllLocks c X (lockCallback l) acc w = ((r, acc'), w')"
  shows "\<exists>ks. trace w' = trace w @ EvList # map EvLoad ks
           \<and> clock w' = clock w \<and> objs w' = objs w \<and> peers w' = peers w
           \<and> acc \<subseteq> acc'
           \<and> (r = None \<or> (\<exists>f. r = Some (Foreign f))
               \<or> (\<exists>lk k. r = Some (AlreadyLockedError lk) \<and> lockID lk = Some k \<and> k \<notin> X
                      \<and> (Exclusive l \<or> Exclusive lk) \<and> ks \<noteq> [] \<and> last ks = k))"
proof (cases "fst (repoList c w)")
  case (Inl e)
  with assms have "r = Some (Foreign e)" "acc' = acc" "w' = snd (repoList c w)"
    by (auto simp: ForAllLocks_def ParallelList_def split: prod.splits)
  then show ?thesis
    by (intro exI[of _ "[]"]) (simp add: repoList_def storeCall_eq split: option.splits)
next
  case (Inr items)
  with assms have v: "visitAll (forLock c X (lockCallback l)) items acc (snd (repoList c w)) = ((r, acc'), w')"
    by (auto simp: ForAllLocks_def ParallelList_def split: prod.splits)
  have w1: "trace (snd (repoList c w)) = trace w @ [EvList]" "clock (snd (repoList c w)) = clock w"
     "objs (snd (repoList c w)) = objs w" "peers (snd (repoList c w)) = peers w"
    by (simp_all add: repoList_def storeCall_eq split: option.splits)
  from visitAll_scan[OF v] w1 show ?thesis by auto
qed


lemma advanceTo_fields:
  "trace (advanceTo t w) = trace w" "clock (advanceTo t w) = max t (clock w)"
  "faults (advanceTo t w) = faults w"
  by (simp_all add: advanceTo_def Let_def)

lemma cancelableDelay_facts:
  assumes "cancelableDelay c d w = (dr, w1)"
  shows "trace w1 = trace w @ [EvDelay d]" "clock w \<le> clock w1"
    "\<And>t. c = Some t \<Longrightarrow> clock w1 \<le> max (clock w) t"
    "dr = None \<or> (dr = Some (Foreign Canceled) \<and> c \<noteq> None)"
  using assms
  by (auto simp: cancelableDelay_def Let_def advanceTo_fields split: option.splits if_splits)

lemma afterRetries_cases:
  "afterRetries None = None"
  "afterRetries (Some (Foreign f)) =
     (if unwrapsInvalidData f then Some (InvalidLockError (Foreign f)) else Some (Foreign f))"
  by (simp_all add: afterRetries_def)

lemma retry_summary:
  assumes "retryLocking n i c l X delay err w = (r, w')"
      and "err = None \<or> (\<exists>f. err = Some (Foreign f))"
  shows "\<exists>evs. trace w' = trace w @ evs
     \<and> scansOf evs \<le> n
     \<and> prefix (delaysOf evs) (backoff n i delay)
     \<and> scansOf evs \<le> length (delaysOf evs) + (if i = 0 then 1 else 0)
     \<and> length (delaysOf evs) \<le> scansOf evs + (if i = 0 then 0 else 1)
     \<and> clock w \<le> clock w'
     \<and> (\<forall>t. c = Some t \<longrightarrow> clock w' \<le> max (clock w) t)
     \<and> (r = None
        \<or> (\<exists>f. r = Some (Foreign f)
              \<and> (c = None \<longrightarrow> scansOf evs = n \<and> delaysOf evs = backoff n i delay))
        \<or> (\<exists>f. r = Some (InvalidLockError (Foreign f)) \<and> unwrapsInvalidData f
              \<and> scansOf evs = n \<and> delaysOf evs = backoff n i delay)
        \<or> (\<exists>lk k. r = Some (AlreadyLockedError lk) \<and> lockID lk = Some k \<and> k \<notin> X
              \<and> (Exclusive l \<or> Exclusive lk) \<and> evs \<noteq> [] \<and> last evs = EvLoad k
              \<and> length (delaysOf evs) + (if i = 0 then 1 else 0) = scansOf evs))"
  using assms
proof (induction n arbitrary: i X delay err w)
  case 0
  then show ?case
  proof (cases err)
    case None
    with 0 show ?thesis
      by (intro exI[of _ "[]"]) (simp add: afterRetries_cases scansOf_def)
  next
    case (Some e)
    with 0(2) obtain f where f: "err = Some (Foreign f)" by auto
    with 0(1) have r: "r = afterRetries (Some (Foreign f))" "w' = w" by simp_all
    show ?thesis
      apply (rule exI[of _ "[]"])
      using r by (simp add: afterRetries_cases scansOf_def)
  qed
next
  case (Suc n)
  obtain dr w1 where d: "(if i \<noteq> 0 then cancelableDelay c delay w else (None, w)) = (dr, w1)"
    by (cases "if i \<noteq> 0 then cancelableDelay c delay w else (None, w)")
  define pre where "pre = (if i \<noteq> 0 then [EvDelay delay] else [])"
  have w1: "trace w1 = trace w @ pre" "clock w \<le> clock w1"
    "\<And>t. c = Some t \<Longrightarrow> clock w1 \<le> max (clock w) t"
    "dr = None \<or> (dr = Some (Foreign Canceled) \<and> c \<noteq> None \<and> i \<noteq> 0)"
    using d cancelableDelay_facts[of c delay w dr w1]
    by (auto simp: pre_def split: if_splits)
  have pre: "scansOf pre = 0" "delaysOf pre = (if i \<noteq> 0 then [delay] else [])"
    by (simp_all add: pre_def scansOf_def)
  show ?case
  proof (cases dr)
    case (Some e)
    with w1(4) have e: "dr = Some (Foreign Canceled)" "c \<noteq> None" "i \<noteq> 0" by auto
    with Suc.prems(1) d have res: "r = Some (Foreign Canceled)" "w' = w1" by auto
    show ?thesis
      apply (rule exI[of _ pre])
      apply (intro conjI)
      subgoal using res w1(1) by simp
      subgoal by (simp add: pre)
      subgoal using e by (simp add: pre)
      subgoal by (simp add: pre)
      subgoal using e by (simp add: pre)
      subgoal using res w1(2) by simp
      subgoal using res w1(3) by simp
      subgoal using res e by auto
      done
  next
    case None
    obtain sr X' w2 where sc: "ForAllLocks c X (lockCallback l) X w1 = ((sr, X'), w2)"
      by (cases "ForAllLocks c X (lockCallback l) X w1") auto
    from ForAllLocks_scan[OF sc] obtain ks where
      ks: "trace w2 = trace w1 @ EvList # map EvLoad ks" "clock w2 = clock w1" "X \<subseteq> X'"
        "sr = None \<or> (\<exists>f. sr = Some (Foreign f))
               \<or> (\<exists>lk k. sr = Some (AlreadyLockedError lk) \<and> lockID lk = Some k \<and> k \<notin> X
                      \<and> (Exclusive l \<or> Exclusive lk) \<and> ks \<noteq> [] \<and> last ks = k)"
      by blast
    define sevs where "sevs = EvList # map EvLoad ks"
    have sevs: "scansOf sevs = 1" "delaysOf sevs = []"
      by (simp_all add: sevs_def scansOf_Cons scansOf_loads delaysOf_loads)
    have w2: "trace w2 = trace w @ pre @ sevs" "clock w \<le> clock w2"
      "\<And>t. c = Some t \<Longrightarrow> clock w2 \<le> max (clock w) t"
      using ks(1,2) w1 by (auto simp: sevs_def)
    from ks(4) consider (clean) "sr = None" | (fail) f where "sr = Some (Foreign f)"
      | (conflict) lk k where "sr = Some (AlreadyLockedError lk)" "lockID lk = Some k" "k \<notin> X"
          "Exclusive l \<or> Exclusive lk" "ks \<noteq> []" "last ks = k"
      by blast
    then show ?thesis
    proof cases
      case clean
      with Suc.prems(1) d None sc have res: "r = None" "w' = w2" by (auto simp: Let_def)
      show ?thesis
        apply (rule exI[of _ "pre @ sevs"])
        apply (intro conjI)
        subgoal using res w2(1) by simp
        subgoal by (simp add: scansOf_append pre sevs)
        subgoal by (simp add: delaysOf_append pre sevs)
        subgoal by (simp add: scansOf_append delaysOf_append pre sevs)
        subgoal by (simp add: scansOf_append delaysOf_append pre sevs)
        subgoal using res w2(2) by simp
        subgoal using res w2(3) by simp
        subgoal using res by simp
        done
    next
      case conflict
      with Suc.prems(1) d None sc have res: "r = Some (AlreadyLockedError lk)" "w' = w2"
        by (auto simp: Let_def)
      have l: "pre @ sevs \<noteq> []" "last (pre @ sevs) = EvLoad k"
        using conflict(5,6) by (auto simp: sevs_def last_map)
      show ?thesis
        apply (rule exI[of _ "pre @ sevs"])
        apply (intro conjI)
        subgoal using res w2(1) by simp
        subgoal by (simp add: scansOf_append pre sevs)
        subgoal by (simp add: delaysOf_append pre sevs)
        subgoal by (simp add: scansOf_append delaysOf_append pre sevs)
        subgoal by (simp add: scansOf_append delaysOf_append pre sevs)
        subgoal using res w2(2) by simp
        subgoal using res w2(3) by simp
        subgoal
          apply (intro disjI2)
          apply (rule exI[of _ lk], rule exI[of _ k])
          using res conflict(2,3,4) l
          by (simp add: scansOf_append delaysOf_append pre sevs)
        done
    next
      case fail
      define delay1 where "delay1 = (if i \<noteq> 0 then wrap64 (delay * 2) else delay)"
      from fail Suc.prems(1) d None sc
      have rec: "retryLocking n (Suc i) c l X' delay1 (Some (Foreign f)) w2 = (r, w')"
        by (auto simp: Let_def delay1_def)
      from Suc.IH[OF rec] obtain evs where
        evs: "trace w' = trace w2 @ evs" "scansOf evs \<le> n"
          "prefix (delaysOf evs) (backoff n (Suc i) delay1)"
          "scansOf evs \<le> length (delaysOf evs)"
          "length (delaysOf evs) \<le> scansOf evs + 1"
          "clock w2 \<le> clock w'"
          "\<forall>t. c = Some t \<longrightarrow> clock w' \<le> max (clock w2) t"
          "r = None
           \<or> (\<exists>f. r = Some (Foreign f)
              \<and> (c = None \<longrightarrow> scansOf evs = n \<and> delaysOf evs = backoff n (Suc i) delay1))
           \<or> (\<exists>f. r = Some (InvalidLockError (Foreign f)) \<and> unwrapsInvalidData f
              \<and> scansOf evs = n \<and> delaysOf evs = backoff n (Suc i) delay1)
           \<or> (\<exists>lk k. r = Some (AlreadyLockedError lk) \<and> lockID lk = Some k \<and> k \<notin> X'
              \<and> (Exclusive l \<or> Exclusive lk) \<and> evs \<noteq> [] \<and> last evs = EvLoad k
              \<and> length (delaysOf evs) = scansOf evs)"
        by auto
      have bo: "backoff (Suc n) i delay = delaysOf pre @ backoff n (Suc i) delay1"
        by (simp add: pre delay1_def)
      have t: "trace w' = trace w @ (pre @ sevs @ evs)" using evs(1) w2(1) by simp
      have sc': "scansOf (pre @ sevs @ evs) = Suc (scansOf evs)"
        by (simp add: scansOf_append pre sevs)
      have dl: "delaysOf (pre @ sevs @ evs) = delaysOf pre @ delaysOf evs"
        by (simp add: delaysOf_append sevs)
      have c1: "scansOf (pre @ sevs @ evs) \<le> Suc n" using evs(2) sc' by simp
      have c2: "prefix (delaysOf (pre @ sevs @ evs)) (backoff (Suc n) i delay)"
        unfolding dl bo using evs(3) by simp
      have c3: "scansOf (pre @ sevs @ evs)
                  \<le> length (delaysOf (pre @ sevs @ evs)) + (if i = 0 then 1 else 0)"
        unfolding dl sc' using evs(4) by (simp add: pre)
      have c4: "length (delaysOf (pre @ sevs @ evs))
                  \<le> scansOf (pre @ sevs @ evs) + (if i = 0 then 0 else 1)"
        unfolding dl sc' using evs(5) by (simp add: pre)
      have c5: "clock w \<le> clock w'" using evs(6) w2(2) by simp
      have c6: "\<forall>t. c = Some t \<longrightarrow> clock w' \<le> max (clock w) t"
        using evs(7) w2(3) by fastforce
      have c7: "r = None
        \<or> (\<exists>f. r = Some (Foreign f)
              \<and> (c = None \<longrightarrow> scansOf (pre @ sevs @ evs) = Suc n
                     \<and> delaysOf (pre @ sevs @ evs) = backoff (Suc n) i delay))
        \<or> (\<exists>f. r = Some (InvalidLockError (Foreign f)) \<and> unwrapsInvalidData f
              \<and> scansOf (pre @ sevs @ evs) = Suc n
              \<and> delaysOf (pre @ sevs @ evs) = backoff (Suc n) i delay)
        \<or> (\<exists>lk k. r = Some (AlreadyLockedError lk) \<and> lockID lk = Some k \<and> k \<notin> X
              \<and> (Exclusive l \<or> Exclusive lk) \<and> pre @ sevs @ evs \<noteq> []
              \<and> last (pre @ sevs @ evs) = EvLoad k
              \<and> length (delaysOf (pre @ sevs @ evs)) + (if i = 0 then 1 else 0)
                  = scansOf (pre @ sevs @ evs))"
      proof -
        from evs(8) consider (a) "r = None"
          | (b) f' where "r = Some (Foreign f')"
              "c = None \<longrightarrow> scansOf evs = n \<and> delaysOf evs = backoff n (Suc i) delay1"
          | (c) f' where "r = Some (InvalidLockError (Foreign f'))" "unwrapsInvalidData f'"
              "scansOf evs = n" "delaysOf evs = backoff n (Suc i) delay1"
          | (d) lk k where "r = Some (AlreadyLockedError lk)" "lockID lk = Some k" "k \<notin> X'"
              "Exclusive l \<or> Exclusive lk" "evs \<noteq> []" "last evs = EvLoad k"
              "length (delaysOf evs) = scansOf evs"
          by blast
        then show ?thesis
        proof cases
          case a
          then show ?thesis by simp
        next
          case b
          then show ?thesis unfolding dl sc' bo by simp
        next
          case c
          then show ?thesis unfolding dl sc' bo by simp
        next
          case d
          have "k \<notin> X" using d(3) ks(3) by blast
          with d show ?thesis unfolding dl sc' bo
            apply (intro disjI2)
            apply (rule exI[of _ lk], rule exI[of _ k])
            by (simp add: pre)
        qed
      qed
      from t c1 c2 c3 c4 c5 c6 c7 show ?thesis by blast
    qed
  qed
qed










subsection \<open>What counts as a conflict\<close>





subsection \<open>A lock object that does not load\<close>














subsection \<open>The settle delay\<close>

lemma createLock_clock: "clock (snd (createLock c r l w)) = clock w"
  by (simp add: createLock_def SaveJSONUnpacked_def storeCall_eq Let_def split: option.splits)

lemma RemoveUnpacked_clock: "clock (snd (RemoveUnpacked c i w)) = clock w"
  by (simp add: RemoveUnpacked_def storeCall_eq split: option.splits)

lemma RemoveUnpacked_clock_eq: "RemoveUnpacked c i w = (e, w') \<Longrightarrow> clock w' = clock w"
  using RemoveUnpacked_clock[of c i w] by simp

lemma Unlock_clock: "clock (snd (Unlock c lo w)) = clock w"
  by (auto simp: Unlock_def RemoveUnpacked_clock_eq split: option.splits prod.splits)

lemma checkExistence_clock: "clock (snd (checkExistence c l w)) = clock w"
  by (simp add: checkExistence_def repoList_def storeCall_eq split: option.splits)

lemma checkExistence_done:
  "ctxDone c (clock w) \<Longrightarrow> fst (checkExistence c l w) = Inl (Foreign Canceled)"
  by (simp add: checkExistence_def repoList_def storeCall_eq)

lemma checkExistence_True: "checkExistence c l w = (Inr True, w1) \<Longrightarrow> \<exists>i. lockID l = Some i"
  by (cases "lockID l")
     (auto simp: checkExistence_def repoList_def storeCall_eq split: option.splits if_splits)

lemma checkForOtherLocks_clock:
  "checkForOtherLocks v c l w = (r, w') \<Longrightarrow> clock w \<le> clock w'"
proof -
  assume "checkForOtherLocks v c l w = (r, w')"
  then have "retryLocking 4 0 c l (ownID l) (initialWaitBetweenLockRetries v) None w = (r, w')"
    by (simp add: checkForOtherLocks_def)
  from retry_summary[OF this] show ?thesis by auto
qed

lemma ForAllLocks_done:
  "ctxDone c (clock w) \<Longrightarrow>
   ForAllLocks c X fn acc w
     = ((Some (Foreign Canceled), acc), w\<lparr> trace := trace w @ [EvList], faults := tl (faults w) \<rparr>)"
  by (simp add: ForAllLocks_def ParallelList_def repoList_def storeCall_eq)

lemma checkForOtherLocks_done:
  assumes "ctxDone c (clock w)"
  shows "fst (checkForOtherLocks v c l w) = Some (Foreign Canceled)"
proof -
  from assms obtain t where t: "c = Some t" "t \<le> clock w"
    by (auto simp: ctxDone_def split: option.splits)
  let ?w1 = "w\<lparr> trace := trace w @ [EvList], faults := tl (faults w) \<rparr>"
  have d: "fst (cancelableDelay c d ?w1) = Some (Foreign Canceled)" for d
    using t by (simp add: cancelableDelay_def Let_def)
  have "retryLocking (Suc (Suc n)) 0 c l X d None w
          = (Some (Foreign Canceled), snd (cancelableDelay c d ?w1))" for n X d
    using d[of d] by (cases "cancelableDelay c d ?w1") (simp add: ForAllLocks_done[OF assms])
  from this[of 2] show ?thesis
    by (simp add: checkForOtherLocks_def numeral_eq_Suc)
qed


text \<open>
  C5, as the code has it. \<open>cancelableDelay\<close>, the delay between retries, is cancellable:
  when the context is cancelled by the time the timer would fire, it returns the
  cancellation error at the instant of cancellation. The settle delay is
  \<^verbatim>\<open>time.Sleep\<close>, which takes no context: once \<open>NewLock\<close> or \<open>RefreshStaleLock\<close> has
  saved its descriptor, the full \<open>waitBeforeLockCheck\<close> passes before it returns,
  whatever the context. A cancellation during the settle delay is reported after it:
  the next store call is made under the cancelled context, and the operation returns
  the cancellation error.
\<close>

theorem settle_delay_not_cancelable:
  "(c = Some t \<and> t \<le> clock w + max d 0 \<longrightarrow>
      fst (cancelableDelay c d w) = Some (Foreign Canceled)
      \<and> clock (snd (cancelableDelay c d w)) = max t (clock w))
   \<and> clock (timeSleep d w) = clock w + max d 0
   \<and> (fillUserInfo sys (newDescriptor sys ex (clock w)) = (l0, None)
        \<and> checkForOtherLocks v c l0 w = (None, w1)
        \<and> createLock c r l0 w1 = (Inr i, w2) \<longrightarrow>
        clock w2 + max (waitBeforeLockCheck v) 0 \<le> clock (snd (NewLock v sys c r ex w))
        \<and> (ctxDone c (clock w2 + max (waitBeforeLockCheck v) 0) \<longrightarrow>
             fst (NewLock v sys c r ex w) = Inl (Foreign Canceled)))
   \<and> (checkExistence c l w = (Inr True, w1')
        \<and> createLock c r (l\<lparr> Time := clock w1' \<rparr>) w1' = (Inr i', w2') \<longrightarrow>
        clock (snd (snd (RefreshStaleLock v c r l w)))
          = clock w2' + max (waitBeforeLockCheck v) 0
        \<and> (ctxDone c (clock w2' + max (waitBeforeLockCheck v) 0) \<longrightarrow>
             fst (RefreshStaleLock v c r l w) = Some (Foreign Canceled)))"
proof -
  have a: "c = Some t \<and> t \<le> clock w + max d 0 \<longrightarrow>
      fst (cancelableDelay c d w) = Some (Foreign Canceled)
      \<and> clock (snd (cancelableDelay c d w)) = max t (clock w)"
    by (simp add: cancelableDelay_def Let_def advanceTo_fields)
  have b: "clock (timeSleep d w) = clock w + max d 0" by (simp add: timeSleep_fields)
  have n: "clock w2 + max (waitBeforeLockCheck v) 0 \<le> clock (snd (NewLock v sys c r ex w))
        \<and> (ctxDone c (clock w2 + max (waitBeforeLockCheck v) 0) \<longrightarrow>
             fst (NewLock v sys c r ex w) = Inl (Foreign Canceled))"
    if fu: "fillUserInfo sys (newDescriptor sys ex (clock w)) = (l0, None)"
      and pre: "checkForOtherLocks v c l0 w = (None, w1)"
      and pub: "createLock c r l0 w1 = (Inr i, w2)"
  proof -
    let ?l3 = "l0\<lparr> lockID := Some i \<rparr>"
    let ?w3 = "timeSleep (waitBeforeLockCheck v) w2"
    obtain r4 w4 where post: "checkForOtherLocks v c ?l3 ?w3 = (r4, w4)"
      by (cases "checkForOtherLocks v c ?l3 ?w3")
    have c3: "clock ?w3 = clock w2 + max (waitBeforeLockCheck v) 0"
      by (simp add: timeSleep_fields)
    have c4: "clock ?w3 \<le> clock w4" using checkForOtherLocks_clock[OF post] .
    have run: "NewLock v sys c r ex w =
        (case r4 of Some e \<Rightarrow> (Inl e, snd (Unlock c (Some ?l3) w4)) | None \<Rightarrow> (Inr ?l3, w4))"
      using fu pre pub post by (simp add: NewLock_def Let_def split: option.splits)
    have clk: "clock (snd (NewLock v sys c r ex w)) = clock w4"
      unfolding run by (cases r4) (simp_all add: Unlock_clock)
    have can: "fst (NewLock v sys c r ex w) = Inl (Foreign Canceled)"
      if "ctxDone c (clock w2 + max (waitBeforeLockCheck v) 0)"
    proof -
      from that have "ctxDone c (clock ?w3)" by (simp add: c3)
      from checkForOtherLocks_done[OF this, of v ?l3] post
      have "r4 = Some (Foreign Canceled)" by simp
      then show ?thesis unfolding run by simp
    qed
    from clk c3 c4 can show ?thesis by simp
  qed
  have s: "clock (snd (snd (RefreshStaleLock v c r l w)))
          = clock w2' + max (waitBeforeLockCheck v) 0
        \<and> (ctxDone c (clock w2' + max (waitBeforeLockCheck v) 0) \<longrightarrow>
             fst (RefreshStaleLock v c r l w) = Some (Foreign Canceled))"
    if first: "checkExistence c l w = (Inr True, w1')"
      and pub: "createLock c r (l\<lparr> Time := clock w1' \<rparr>) w1' = (Inr i', w2')"
  proof -
    let ?l1 = "l\<lparr> Time := clock w1' \<rparr>"
    let ?w3 = "timeSleep (waitBeforeLockCheck v) w2'"
    obtain res w4 where second: "checkExistence c ?l1 ?w3 = (res, w4)"
      by (cases "checkExistence c ?l1 ?w3")
    have c3: "clock ?w3 = clock w2' + max (waitBeforeLockCheck v) 0"
      by (simp add: timeSleep_fields)
    have c4: "clock w4 = clock ?w3" using checkExistence_clock[of c ?l1 ?w3] second by simp
    from checkExistence_True[OF first] obtain old where old: "lockID l = Some old" by blast
    have clk: "clock (snd (snd (RefreshStaleLock v c r l w))) = clock w4"
      using first pub second old
      by (auto simp: RefreshStaleLock_def Let_def RemoveUnpacked_clock RemoveUnpacked_clock_eq
            split: sum.splits error.splits bool.splits prod.splits)
    have can: "fst (RefreshStaleLock v c r l w) = Some (Foreign Canceled)"
      if "ctxDone c (clock w2' + max (waitBeforeLockCheck v) 0)"
    proof -
      from that have "ctxDone c (clock ?w3)" by (simp add: c3)
      from checkExistence_done[OF this, of ?l1] second have "res = Inl (Foreign Canceled)" by simp
      with first pub second show ?thesis
        by (simp add: RefreshStaleLock_def Let_def)
    qed
    from clk c3 c4 can show ?thesis by simp
  qed
  from a b n s show ?thesis by blast
qed

theorem settle_delay_not_cancelable_witness:
  "fst (cancelableDelay (Some (2 * second)) (5 * second) emptyWorld) = Some (Foreign Canceled)
   \<and> clock (snd (cancelableDelay (Some (2 * second)) (5 * second) emptyWorld)) = 2 * second
   \<and> 200 * millisecond
       \<le> clock (snd (NewLock defaults exampleOS (Some (100 * millisecond)) exampleRepo True
                        emptyWorld))
   \<and> fst (NewLock defaults exampleOS (Some (100 * millisecond)) exampleRepo True emptyWorld)
       = Inl (Foreign Canceled)
   \<and> clock (snd (snd (RefreshStaleLock defaults (Some (100 * millisecond)) exampleRepo
                          exampleLock heldWorld))) = 1000 + 200 * millisecond
   \<and> fst (RefreshStaleLock defaults (Some (100 * millisecond)) exampleRepo exampleLock
            heldWorld) = Some (Foreign Canceled)"
proof -
  define c where "c = Some (100 * millisecond)"
  define l0 where "l0 = fst (fillUserInfo exampleOS (newDescriptor exampleOS True (clock emptyWorld)))"
  define w1 where "w1 = snd (checkForOtherLocks defaults c l0 emptyWorld)"
  define w2 where "w2 = snd (createLock c exampleRepo l0 w1)"
  define v1 where "v1 = snd (checkExistence c exampleLock heldWorld)"
  define v2 where "v2 = snd (createLock c exampleRepo (exampleLock\<lparr> Time := clock v1 \<rparr>) v1)"
  have g1: "(Some (2 * second) :: ctx) = Some (2 * second)
            \<and> 2 * second \<le> clock emptyWorld + max (5 * second) 0"
    by (simp add: emptyWorld_def second_def)
  have g2: "fillUserInfo exampleOS (newDescriptor exampleOS True (clock emptyWorld)) = (l0, None)
            \<and> checkForOtherLocks defaults c l0 emptyWorld = (None, w1)
            \<and> createLock c exampleRepo l0 w1 = (Inr 100, w2)"
    unfolding w2_def w1_def l0_def c_def
    by (simp add: prod_eq_iff store_defs lock_defs example_defs numeral_eq_Suc)
  have g3: "clock w2 = 0"
    unfolding w2_def w1_def l0_def c_def
    by (simp add: store_defs lock_defs example_defs numeral_eq_Suc)
  have g4: "checkExistence c exampleLock heldWorld = (Inr True, v1)
            \<and> createLock c exampleRepo (exampleLock\<lparr> Time := clock v1 \<rparr>) v1 = (Inr 1100, v2)"
    unfolding v2_def v1_def c_def
    by (simp add: prod_eq_iff store_defs lock_defs example_defs)
  have g5: "clock v2 = 1000"
    unfolding v2_def v1_def c_def by (simp add: store_defs lock_defs example_defs)
  have g6: "ctxDone c (clock w2 + max (waitBeforeLockCheck defaults) 0)
            \<and> ctxDone c (clock v2 + max (waitBeforeLockCheck defaults) 0)"
    by (simp add: g3 g5 c_def ctxDone_def defaults_def millisecond_def)
  note T1 = settle_delay_not_cancelable
      [where c = "Some (2 * second)" and t = "2 * second" and w = emptyWorld
         and d = "5 * second", THEN conjunct1]
  note T3 = settle_delay_not_cancelable
      [where c = c and w = emptyWorld and sys = exampleOS and ex = True and ?l0.0 = l0
         and v = defaults and ?w1.0 = w1 and r = exampleRepo and i = 100 and ?w2.0 = w2,
       THEN conjunct2, THEN conjunct2, THEN conjunct1]
  note T4 = settle_delay_not_cancelable
      [where c = c and w = heldWorld and l = exampleLock and w1' = v1 and r = exampleRepo
         and i' = 1100 and w2' = v2 and v = defaults,
       THEN conjunct2, THEN conjunct2, THEN conjunct2]
  from T1 g1 have a: "fst (cancelableDelay (Some (2 * second)) (5 * second) emptyWorld)
        = Some (Foreign Canceled)
      \<and> clock (snd (cancelableDelay (Some (2 * second)) (5 * second) emptyWorld)) = 2 * second"
    by (simp add: emptyWorld_def second_def)
  from T3 g2 g6 have b: "clock w2 + max (waitBeforeLockCheck defaults) 0
         \<le> clock (snd (NewLock defaults exampleOS c exampleRepo True emptyWorld))
      \<and> fst (NewLock defaults exampleOS c exampleRepo True emptyWorld) = Inl (Foreign Canceled)"
    by simp
  from T4 g4 g6 have d: "clock (snd (snd (RefreshStaleLock defaults c exampleRepo exampleLock
          heldWorld))) = clock v2 + max (waitBeforeLockCheck defaults) 0
      \<and> fst (RefreshStaleLock defaults c exampleRepo exampleLock heldWorld)
          = Some (Foreign Canceled)"
    by simp
  from a b d show ?thesis
    unfolding g3 g5 c_def by (simp add: defaults_def millisecond_def)
qed


text \<open>
  The claim as the spec words it fails: the context is cancelled 100 ms into the settle
  delay of \<open>NewLock\<close>, and \<open>NewLock\<close> returns at 200 ms, after the whole sleep.
\<close>

theorem settle_delay_counterexample:
  "fst (NewLock defaults exampleOS (Some (100 * millisecond)) exampleRepo True emptyWorld)
     = Inl (Foreign Canceled)
   \<and> clock (snd (NewLock defaults exampleOS (Some (100 * millisecond)) exampleRepo True
                   emptyWorld)) = 200 * millisecond
   \<and> trace (snd (NewLock defaults exampleOS (Some (100 * millisecond)) exampleRepo True
                   emptyWorld))
       = [EvList, EvSave 100, EvSleep (200 * millisecond), EvList, EvDelay (5 * second),
          EvRemove 100]"
  by (simp add: store_defs lock_defs example_defs numeral_eq_Suc)


end
